theory Spec2Isabelle
  imports Complex_Main "HOL-Library.Multiset" "HOL-Library.Sublist"
begin

section \<open>Python values shared by the generator and the benchmark runner\<close>

text \<open>
  Both programs are Python scripts. Exceptions are values of \<open>py_error\<close>; a
  computation that can raise returns \<open>py_error + 'a\<close> with \<open>Inl\<close> for the raise.
  Python integers are \<open>int\<close>, Python floats are idealised as \<open>real\<close> (the
  properties below are about order and exact small constants, not about rounding).
  A string is a list of characters, and a character is a code point below 256: the
  model covers Latin-1 text, and the functions on characters below are Python's on
  these code points.
\<close>

datatype py_error =
    IndexError
  | ValueError
  | StatisticsError
  | RequestException
  | JSONDecodeError
  | AttributeError

subsection \<open>Characters and \<open>int(str)\<close>\<close>

text \<open>
  The decimal digits \<open>int()\<close> reads, and \<open>str.isdigit()\<close> on one character,
  which also holds for the superscripts two, three and one (0xB2, 0xB3, 0xB9).
\<close>

definition decimal_digit :: "char \<Rightarrow> bool" where
  "decimal_digit c = (48 \<le> (of_char c :: nat) \<and> (of_char c :: nat) \<le> 57)"

definition str_isdigit :: "char \<Rightarrow> bool" where
  "str_isdigit c =
     (decimal_digit c
      \<or> (of_char c :: nat) = 178 \<or> (of_char c :: nat) = 179 \<or> (of_char c :: nat) = 185)"

definition digit_value :: "char \<Rightarrow> nat" where
  "digit_value c = of_char c - 48"

text \<open>
  \<open>str.lower()\<close> on one character: the letters A to Z and the capital letters
  0xC0 to 0xDE, the multiplication sign 0xD7 apart, move up by 32.
\<close>

definition str_lower :: "char \<Rightarrow> char" where
  "str_lower c =
     (if (65 \<le> (of_char c :: nat) \<and> (of_char c :: nat) \<le> 90)
         \<or> (192 \<le> (of_char c :: nat) \<and> (of_char c :: nat) \<le> 222
             \<and> (of_char c :: nat) \<noteq> 215)
      then char_of (of_char c + (32 :: nat)) else c)"

text \<open>
  The characters \<open>int()\<close> strips from both ends: tab, line feed, vertical tab,
  form feed, carriage return, the space, and the two Latin-1 spaces 0x85 and 0xA0.
\<close>

definition str_isspace :: "char \<Rightarrow> bool" where
  "str_isspace c =
     ((9 \<le> (of_char c :: nat) \<and> (of_char c :: nat) \<le> 13) \<or> (of_char c :: nat) = 32
      \<or> (of_char c :: nat) = 133 \<or> (of_char c :: nat) = 160)"

definition str_strip :: "string \<Rightarrow> string" where
  "str_strip s = rev (dropWhile str_isspace (rev (dropWhile str_isspace s)))"

text \<open>
  The digits of an integer literal, read left to right with an accumulator. A single
  underscore is allowed between two digits and nowhere else.
\<close>

fun int_digits :: "string \<Rightarrow> nat \<Rightarrow> nat option" where
  "int_digits [] acc = Some acc"
| "int_digits (c # cs) acc =
     (if decimal_digit c then int_digits cs (10 * acc + digit_value c)
      else if c = CHR ''_'' then
        (case cs of
           [] \<Rightarrow> None
         | d # _ \<Rightarrow> if decimal_digit d then int_digits cs acc else None)
      else None)"

text \<open>
  \<open>int(s)\<close> for a string in base ten: surrounding whitespace is stripped, one sign
  may lead, the rest must start with a digit and be digits and single underscores.
  Anything else raises \<open>ValueError\<close>.
\<close>

definition py_int :: "string \<Rightarrow> py_error + int" where
  "py_int s =
     (let t = str_strip s;
          neg = (t \<noteq> [] \<and> hd t = CHR ''-'');
          body = (if t \<noteq> [] \<and> (hd t = CHR ''-'' \<or> hd t = CHR ''+'') then tl t else t)
      in case body of
           [] \<Rightarrow> Inl ValueError
         | c # _ \<Rightarrow>
             if decimal_digit c then
               (case int_digits body 0 of
                  None \<Rightarrow> Inl ValueError
                | Some n \<Rightarrow> Inr (if neg then - int n else int n))
             else Inl ValueError)"

text \<open>
  The number a string of decimal digits denotes, by position: the first digit weighs
  \<open>10 ^ (length - 1)\<close>. This is the reading the claims about \<open><int><unit>\<close>
  use; it is independent of how \<open>int_digits\<close> accumulates.
\<close>

primrec decimal :: "string \<Rightarrow> nat" where
  "decimal [] = 0"
| "decimal (c # cs) = digit_value c * 10 ^ length cs + decimal cs"

section \<open>The benchmark runner: durations\<close>

text \<open>
  \<open>parse_duration\<close> of \<open>query_bench.py\<close> (lines 112 to 124). The table \<open>units\<close> is the dictionary
  of the source; \<open>units.get(unit, 1)\<close> is \<open>units_get\<close>. Indexing the empty string
  raises \<open>IndexError\<close>, and \<open>int()\<close> raises \<open>ValueError\<close>.
\<close>

definition units :: "char \<rightharpoonup> int" where
  "units = [CHR ''s'' \<mapsto> 1, CHR ''m'' \<mapsto> 60, CHR ''h'' \<mapsto> 3600, CHR ''d'' \<mapsto> 86400]"

definition units_get :: "char \<Rightarrow> int \<Rightarrow> int" where
  "units_get u dflt = (case units u of None \<Rightarrow> dflt | Some k \<Rightarrow> k)"

definition parse_duration :: "string \<Rightarrow> py_error + int" where
  "parse_duration duration_str =
     (if duration_str = [] then Inl IndexError
      else if str_isdigit (last duration_str) then py_int duration_str
      else
        let unit = str_lower (last duration_str) in
        case py_int (butlast duration_str) of
          Inl e \<Rightarrow> Inl e
        | Inr v \<Rightarrow> Inr (v * units_get unit 1))"

section \<open>The benchmark runner: latency summaries\<close>

text \<open>
  What the runner writes to standard output, one value per \<open>print\<close> call:
  the header \<^verbatim>\<open>=== {name} ===\<close>, the notice \<^verbatim>\<open>Skipping (skip=true)\<close>,
  the error line of a backend (its tag, the query name, the status code and the first
  200 characters of the response), a line of text, and the summary line
  \<^verbatim>\<open>{name}: p50={p50:.1f} ms, p95={p95:.1f} ms\<close>, which carries the two numbers
  before they are formatted.
\<close>

datatype bench_output =
    Print_header string
  | Print_skipping
  | Print_error string string int string
  | Print_line string
  | Print_summary string real real

text \<open>
  \<open>statistics.median\<close> of the standard library: the middle element of the sorted
  data, the mean of the two middle elements when their number is even, and
  \<open>StatisticsError\<close> on no data.
\<close>

definition median :: "real list \<Rightarrow> py_error + real" where
  "median xs =
     (let data = sort xs; n = length data in
      if n = 0 then Inl StatisticsError
      else if n mod 2 = 1 then Inr (data ! (n div 2))
      else let i = n div 2 in Inr ((data ! (i - 1) + data ! i) / 2))"

text \<open>\<open>int(x)\<close> of a float truncates towards zero.\<close>

definition int_of_float :: "real \<Rightarrow> int" where
  "int_of_float x = (if 0 \<le> x then \<lfloor>x\<rfloor> else \<lceil>x\<rceil>)"

text \<open>
  \<open>xs[i]\<close> for a Python list: an index below zero counts from the end, and an index
  outside the list raises \<open>IndexError\<close>.
\<close>

definition list_item :: "'a list \<Rightarrow> int \<Rightarrow> py_error + 'a" where
  "list_item xs i =
     (if 0 \<le> i \<and> i < int (length xs) then Inr (xs ! nat i)
      else if i < 0 \<and> - int (length xs) \<le> i then Inr (xs ! nat (int (length xs) + i))
      else Inl IndexError)"

text \<open>
  \<open>summarize\<close> (\<open>query_bench.py\<close>, lines 227 to 232): the median, then the element of the sorted latencies at index
  \<open>int(0.95 * (len - 1))\<close>, then the printed line. The model returns the line.
  The product is taken exactly, where Python multiplies in floating point.
\<close>

definition summarize :: "string \<Rightarrow> real list \<Rightarrow> py_error + bench_output" where
  "summarize name latencies =
     (case median latencies of
        Inl e \<Rightarrow> Inl e
      | Inr p50 \<Rightarrow>
          let latencies_sorted = sort latencies;
              idx95 = int_of_float (0.95 * real_of_int (int (length latencies_sorted) - 1))
          in case list_item latencies_sorted idx95 of
               Inl e \<Rightarrow> Inl e
             | Inr p95 \<Rightarrow> Inr (Print_summary name p50 p95))"

text \<open>
  What it means for \<open>m\<close> to be a median of the observations \<open>xs\<close>: at least half
  of them are at most \<open>m\<close>, and at least half of them are at least \<open>m\<close>.
\<close>

definition is_median :: "real list \<Rightarrow> real \<Rightarrow> bool" where
  "is_median xs m =
     (length xs \<le> 2 * length (filter (\<lambda>x. x \<le> m) xs)
      \<and> length xs \<le> 2 * length (filter (\<lambda>x. m \<le> x) xs))"

section \<open>The cardinality generator\<close>

subsection \<open>Configuration and the label space\<close>

text \<open>
  The module-level configuration of \<open>metrics_gen.py\<close> (lines 12 to 21), read from
  the environment with \<open>int()\<close> and \<open>float()\<close>: any integer can be configured, a
  negative one too.
\<close>

record config =
  NUM_INSTANCES :: int
  NUM_STATUS_CODES :: int
  NUM_METHODS :: int
  TICK_SECONDS :: real

text \<open>
  The slice \<open>xs[:n]\<close>: the first \<open>n\<close> elements, all of them when \<open>n\<close> exceeds
  the length, and all but the last \<open>-n\<close> when \<open>n\<close> is negative.
\<close>

definition slice_to :: "'a list \<Rightarrow> int \<Rightarrow> 'a list" where
  "slice_to xs n =
     (if 0 \<le> n then take (nat n) xs else take (nat (int (length xs) + n)) xs)"

definition STATUS_CODES :: "config \<Rightarrow> string list" where
  "STATUS_CODES cfg =
     slice_to [''200'', ''500'', ''400'', ''404'', ''502''] (NUM_STATUS_CODES cfg)"

definition METHODS :: "config \<Rightarrow> string list" where
  "METHODS cfg = slice_to [''GET'', ''POST''] (NUM_METHODS cfg)"

text \<open>\<open>range(n)\<close>: empty when \<open>n\<close> is not positive.\<close>

definition py_range :: "int \<Rightarrow> nat list" where
  "py_range n = [0 ..< nat n]"

text \<open>
  \<open>str(i)\<close> for a natural number, and the format \<open>{i:05d}\<close>: the decimal digits,
  padded on the left with zeros to five characters and never cut.
\<close>

definition digit_char :: "nat \<Rightarrow> char" where
  "digit_char d = char_of (48 + d)"

fun str_of_nat :: "nat \<Rightarrow> string" where
  "str_of_nat n =
     (if n < 10 then [digit_char n] else str_of_nat (n div 10) @ [digit_char (n mod 10)])"

declare str_of_nat.simps [simp del]

definition format_05d :: "nat \<Rightarrow> string" where
  "format_05d i = replicate (5 - length (str_of_nat i)) (CHR ''0'') @ str_of_nat i"

text \<open>A label set: the dictionary with the four keys job, instance, status_code, method.\<close>

record labels =
  l_job :: string
  l_instance :: string
  l_status_code :: string
  l_method :: string

text \<open>
  \<open>generate_series\<close> (lines 140 to 151): the three nested loops, in the order they
  yield.
\<close>

definition generate_series :: "config \<Rightarrow> labels list" where
  "generate_series cfg =
     [\<lparr>l_job = ''demo'', l_instance = ''inst-'' @ format_05d i,
        l_status_code = sc, l_method = m\<rparr>.
        i \<leftarrow> py_range (NUM_INSTANCES cfg), sc \<leftarrow> STATUS_CODES cfg, m \<leftarrow> METHODS cfg]"

text \<open>
  The label set of one combination, as a function of the triple the loops are at. It
  is used to read \<open>generate_series\<close> as the image of a product of three lists.
\<close>

definition mk_labels :: "nat \<times> string \<times> string \<Rightarrow> labels" where
  "mk_labels t = (case t of (i, sc, m) \<Rightarrow>
     \<lparr>l_job = ''demo'', l_instance = ''inst-'' @ format_05d i, l_status_code = sc, l_method = m\<rparr>)"

subsection \<open>One tick: values, the gauge table and the bulk body\<close>

text \<open>
  The value of one sample (lines 159 to 162 of \<open>build_bulk_payload\<close>): \<open>noise\<close> is
  what \<open>random.uniform(-10, 10)\<close> returned for this label set.
\<close>

definition compute_value :: "string \<Rightarrow> real \<Rightarrow> real" where
  "compute_value status_code noise =
     (let base = 100;
          factor = (if status_code = ''200'' then 1 else 0.05)
      in max 0 (base * factor + noise))"

text \<open>JSON values, and the two objects written per sample.\<close>

datatype json =
    JNull
  | JBool bool
  | JInt int
  | JFloat real
  | JStr string
  | JList "json list"
  | JDict "(string \<times> json) list"

definition bulk_action :: json where
  "bulk_action = JDict [(''create'', JDict [])]"

definition bulk_doc :: "string \<Rightarrow> labels \<Rightarrow> real \<Rightarrow> json" where
  "bulk_doc timestamp_iso lbls v =
     JDict [(''@timestamp'', JStr timestamp_iso),
            (''http_requests_qps'', JFloat v),
            (''job'', JStr (l_job lbls)),
            (''instance'', JStr (l_instance lbls)),
            (''status_code'', JStr (l_status_code lbls)),
            (''method'', JStr (l_method lbls))]"

text \<open>\<open>d[key]\<close> read back from a JSON object.\<close>

definition json_field :: "json \<Rightarrow> string \<Rightarrow> json option" where
  "json_field j key = (case j of JDict kvs \<Rightarrow> map_of kvs key | _ \<Rightarrow> None)"

text \<open>\<open>sep.join(xs)\<close>.\<close>

fun str_join :: "string \<Rightarrow> string list \<Rightarrow> string" where
  "str_join sep [] = []"
| "str_join sep [x] = x"
| "str_join sep (x # y # ys) = x @ sep @ str_join sep (y # ys)"

text \<open>
  The Prometheus gauge \<open>http_qps\<close>: one value per label set, replaced whole by
  \<open>set\<close>.
\<close>

type_synonym gauge = "labels \<rightharpoonup> real"

text \<open>
  The loop of \<open>build_bulk_payload\<close> (lines 154 to 185) over the label sets. \<open>dumps\<close> is
  \<open>json.dumps\<close>, a parameter of the model; \<open>noise k\<close> is the \<open>k\<close>-th draw of
  \<open>random.uniform(-10, 10)\<close> in this tick. Each iteration sets one gauge value and
  appends two lines.
\<close>

fun bulk_loop ::
  "(json \<Rightarrow> string) \<Rightarrow> string \<Rightarrow> (nat \<Rightarrow> real) \<Rightarrow> labels list \<Rightarrow> nat
     \<Rightarrow> string list \<Rightarrow> gauge \<Rightarrow> string list \<times> gauge" where
  "bulk_loop dumps timestamp_iso noise [] k lines http_qps = (lines, http_qps)"
| "bulk_loop dumps timestamp_iso noise (lbls # rest) k lines http_qps =
     (let v = compute_value (l_status_code lbls) (noise k);
          http_qps' = http_qps(lbls \<mapsto> v);
          action = bulk_action;
          doc = bulk_doc timestamp_iso lbls v
      in bulk_loop dumps timestamp_iso noise rest (Suc k)
           (lines @ [dumps action, dumps doc]) http_qps')"

definition build_bulk_payload ::
  "(json \<Rightarrow> string) \<Rightarrow> config \<Rightarrow> (nat \<Rightarrow> real) \<Rightarrow> string \<Rightarrow> gauge
     \<Rightarrow> string \<times> gauge" where
  "build_bulk_payload dumps cfg noise timestamp_iso http_qps =
     (case bulk_loop dumps timestamp_iso noise (generate_series cfg) 0 [] http_qps of
        (lines, http_qps') \<Rightarrow> (str_join ''\<newline>'' lines @ ''\<newline>'', http_qps'))"

subsection \<open>Schema setup and the ingest loop\<close>

text \<open>What \<open>requests\<close> gives back: a response, or an exception.\<close>

datatype http_outcome =
    Response int string "json option"
  | Request_failed

text \<open>
  The three calls of \<open>ensure_index\<close> (lines 55 to 137) that decide its result: the
  template is put, read back, and the data stream is put. The check for an
  older plain index runs inside its own \<open>try\<close> whose handler is \<open>pass\<close>, so it
  never changes the result. Any exception of the outer \<open>try\<close> gives \<open>False\<close>.
\<close>

record setup_responses =
  put_template :: http_outcome
  get_template :: http_outcome
  put_data_stream :: http_outcome

definition ensure_index :: "setup_responses \<Rightarrow> bool" where
  "ensure_index rs =
     (case put_template rs of
        Request_failed \<Rightarrow> False
      | Response st _ _ \<Rightarrow>
          if st \<noteq> 200 \<and> st \<noteq> 201 then False
          else
            (case get_template rs of
               Request_failed \<Rightarrow> False
             | Response st' _ _ \<Rightarrow>
                 if st' \<noteq> 200 then False
                 else
                   (case put_data_stream rs of
                      Request_failed \<Rightarrow> False
                    | Response _ _ _ \<Rightarrow> True)))"

text \<open>What the generator does that can be observed from outside, in order.\<close>

datatype gen_event =
    Log_es_unavailable
  | Call_ensure_index nat
  | Log_retry nat nat
  | Sleep real
  | Log_setup_failed
  | Log_loop_starting
  | Post_bulk string
  | Log_bulk_error int
  | Verify_first_batch
  | Log_send_error
  | Raised py_error

text \<open>
  The environment of one run: whether \<open>wait_for_elasticsearch\<close> returned
  \<open>True\<close> (it polls against the wall clock, which the model does not follow), the
  responses to the \<open>n\<close>-th call of \<open>ensure_index\<close>, and for the \<open>n\<close>-th tick its
  timestamp, its noise draws and the outcome of its bulk request.
\<close>

record gen_env =
  es_ready :: bool
  setup_calls :: "nat \<Rightarrow> setup_responses"
  now_iso :: "nat \<Rightarrow> string"
  noise_of :: "nat \<Rightarrow> nat \<Rightarrow> real"
  bulk_response :: "nat \<Rightarrow> http_outcome"

text \<open>
  The retry loop \<open>for attempt in range(max_retries)\<close> of \<open>ingest_loop\<close> (lines
  195 to 203): a
  success breaks out, a failure before the last attempt logs and sleeps two seconds,
  a failure of the last attempt logs the error.
\<close>

fun setup_loop :: "(nat \<Rightarrow> setup_responses) \<Rightarrow> nat \<Rightarrow> nat list \<Rightarrow> gen_event list" where
  "setup_loop rs max_retries [] = []"
| "setup_loop rs max_retries (attempt # rest) =
     Call_ensure_index attempt #
       (if ensure_index (rs attempt) then []
        else if attempt < max_retries - 1
          then Log_retry (attempt + 1) max_retries # Sleep 2 # setup_loop rs max_retries rest
          else Log_setup_failed # setup_loop rs max_retries rest)"

text \<open>
  The body of \<open>while True\<close> (lines 213 to 247), run for a given number of ticks: the
  model returns what the first \<open>fuel\<close> ticks do, and the loop itself never ends
  unless it raises. \<open>n\<close> counts the ticks so far. An exception of the request is caught
  and logged; a status of 300 or more is logged; the first accepted batch is verified.
  The sleep at the end of a tick stands outside the \<open>try\<close>: \<open>time.sleep\<close> raises
  \<open>ValueError\<close> for a negative number of seconds, which ends the loop.
\<close>

fun tick_loop ::
  "(json \<Rightarrow> string) \<Rightarrow> config \<Rightarrow> gen_env \<Rightarrow> nat \<Rightarrow> nat \<Rightarrow> bool \<Rightarrow> gauge
     \<Rightarrow> gen_event list \<times> gauge" where
  "tick_loop dumps cfg env 0 n first_batch http_qps = ([], http_qps)"
| "tick_loop dumps cfg env (Suc fuel) n first_batch http_qps =
     (case build_bulk_payload dumps cfg (noise_of env n) (now_iso env n) http_qps of
        (body, http_qps') \<Rightarrow>
          (let (logged, first_batch') =
                 (case bulk_response env n of
                    Request_failed \<Rightarrow> ([Log_send_error], first_batch)
                  | Response st _ _ \<Rightarrow>
                      if 300 \<le> st then ([Log_bulk_error st], first_batch)
                      else if first_batch then ([Verify_first_batch], False)
                      else ([], first_batch))
           in if TICK_SECONDS cfg < 0
              then (Post_bulk body # logged @ [Raised ValueError], http_qps')
              else
                case tick_loop dumps cfg env fuel (Suc n) first_batch' http_qps' of
                  (later, http_qps'') \<Rightarrow>
                    (Post_bulk body # logged @ Sleep (TICK_SECONDS cfg) # later, http_qps'')))"

definition ingest_loop ::
  "(json \<Rightarrow> string) \<Rightarrow> config \<Rightarrow> gen_env \<Rightarrow> nat \<Rightarrow> gauge \<Rightarrow> gen_event list \<times> gauge" where
  "ingest_loop dumps cfg env fuel http_qps =
     (if \<not> es_ready env then ([Log_es_unavailable], http_qps)
      else
        let max_retries = 3;
            setup = setup_loop (setup_calls env) max_retries (py_range (int max_retries))
        in case tick_loop dumps cfg env fuel 0 True http_qps of
             (ticks, http_qps') \<Rightarrow> (setup @ Log_loop_starting # ticks, http_qps'))"

subsection \<open>Reading a tick back\<close>

text \<open>
  The two lines of the \<open>j\<close>-th sample of a tick, given the label sets \<open>ls\<close> of the
  tick: the create action, and the document with the tick's timestamp and the value
  computed from the \<open>j\<close>-th noise draw.
\<close>

definition sample_value :: "(nat \<Rightarrow> real) \<Rightarrow> labels list \<Rightarrow> nat \<Rightarrow> real" where
  "sample_value noise ls j = compute_value (l_status_code (ls ! j)) (noise j)"

definition sample_lines ::
  "(json \<Rightarrow> string) \<Rightarrow> string \<Rightarrow> (nat \<Rightarrow> real) \<Rightarrow> labels list \<Rightarrow> nat \<Rightarrow> string list" where
  "sample_lines dumps timestamp_iso noise ls j =
     [dumps bulk_action, dumps (bulk_doc timestamp_iso (ls ! j) (sample_value noise ls j))]"

text \<open>
  \<open>s.split(sep)\<close> for a separator of one character: the pieces between the
  separators, so a string that ends in the separator has a last piece that is empty.
\<close>

fun str_split :: "char \<Rightarrow> string \<Rightarrow> string list" where
  "str_split sep [] = [[]]"
| "str_split sep (c # cs) =
     (if c = sep then [] # str_split sep cs
      else (case str_split sep cs of
              [] \<Rightarrow> [[c]]
            | w # ws \<Rightarrow> (c # w) # ws))"

definition is_Post_bulk :: "gen_event \<Rightarrow> bool" where
  "is_Post_bulk e = (case e of Post_bulk _ \<Rightarrow> True | _ \<Rightarrow> False)"

definition is_Call_ensure_index :: "gen_event \<Rightarrow> bool" where
  "is_Call_ensure_index e = (case e of Call_ensure_index _ \<Rightarrow> True | _ \<Rightarrow> False)"

text \<open>All the lines of one tick, sample after sample.\<close>

definition tick_lines ::
  "(json \<Rightarrow> string) \<Rightarrow> config \<Rightarrow> (nat \<Rightarrow> real) \<Rightarrow> string \<Rightarrow> string list" where
  "tick_lines dumps cfg noise timestamp_iso =
     concat (map (sample_lines dumps timestamp_iso noise (generate_series cfg))
               [0 ..< length (generate_series cfg)])"

text \<open>
  Stand-ins for the parameters in concrete examples: a serialiser that writes every
  value as an empty object, a noise source that always draws zero, and the three
  configurations the examples use.
\<close>

definition dumps_blank :: "json \<Rightarrow> string" where
  "dumps_blank j = ''{}''"

text \<open>A second stand-in, which tells the create action from everything else.\<close>

definition dumps_tag :: "json \<Rightarrow> string" where
  "dumps_tag j = (if j = JDict [(''create'', JDict [])] then ''{create}'' else ''{doc}'')"

definition noise_zero :: "nat \<Rightarrow> real" where
  "noise_zero k = 0"

definition cfg_small :: config where
  "cfg_small = \<lparr>NUM_INSTANCES = 2, NUM_STATUS_CODES = 1, NUM_METHODS = 1, TICK_SECONDS = 1\<rparr>"

definition cfg_six_codes :: config where
  "cfg_six_codes = \<lparr>NUM_INSTANCES = 1, NUM_STATUS_CODES = 6, NUM_METHODS = 2, TICK_SECONDS = 1\<rparr>"

definition cfg_negative :: config where
  "cfg_negative = \<lparr>NUM_INSTANCES = - 1, NUM_STATUS_CODES = 6, NUM_METHODS = 2, TICK_SECONDS = 1\<rparr>"

text \<open>
  An environment for examples: Elasticsearch answers the health check, every call of
  the template setup fails at the network, and every bulk request is accepted.
\<close>

definition setup_down :: setup_responses where
  "setup_down = \<lparr>put_template = Request_failed, get_template = Request_failed,
                   put_data_stream = Request_failed\<rparr>"

definition env_setup_down :: gen_env where
  "env_setup_down =
     \<lparr>es_ready = True,
      setup_calls = (\<lambda>n. setup_down),
      now_iso = (\<lambda>n. ''2026-01-01T00:00:00+00:00''),
      noise_of = (\<lambda>n. noise_zero),
      bulk_response = (\<lambda>n. Response 200 ''{}'' None)\<rparr>"

section \<open>The benchmark runner: running the queries\<close>

subsection \<open>The catalogue\<close>

text \<open>
  A query definition: a dictionary with the keys name, promql and esql, and optionally
  skip, range_duration and step. A key that is absent is \<open>None\<close>.
\<close>

record query =
  q_name :: string
  q_skip :: "bool option"
  q_promql :: string
  q_esql :: string
  q_range_duration :: "string option"
  q_step :: "string option"

definition NUM_RUNS :: int where
  "NUM_RUNS = 5"

definition SLEEP_BETWEEN :: real where
  "SLEEP_BETWEEN = 0.5"

definition Q1 :: query where
  \<open>Q1 =
     \<lparr>q_name = ''Q1_avg_status_code_1_host'',
      q_skip = None,
      q_promql = ''avg by (status_code) (avg_over_time(http_requests_qps{exported_instance="inst-00004"}[15m]))'',
      q_esql = ''\<newline>''
          @ ''            TS metrics-http\<newline>''
          @ ''            | WHERE  @timestamp >= NOW() - 15 MINUTES\<newline>''
          @ ''              AND @timestamp <= NOW()\<newline>''
          @ ''              AND instance == "inst-00004"\<newline>''
          @ ''            | STATS avg_qps = AVG(http_requests_qps) BY status_code\<newline>'',
      q_range_duration = None,
      q_step = None\<rparr>\<close>

definition Q2 :: query where
  \<open>Q2 =
     \<lparr>q_name = ''Q2_avg_status_code_100_hosts_wildcard'',
      q_skip = Some False,
      q_promql = ''avg by (status_code) (avg_over_time(http_requests_qps{exported_instance=~"inst-001.*"}[5m]))'',
      q_esql = ''\<newline>''
          @ ''            TS metrics-http\<newline>''
          @ ''            | WHERE @timestamp >= NOW() - 60 MINUTES \<newline>''
          @ ''              AND @timestamp <= NOW() \<newline>''
          @ ''              AND instance LIKE "inst-001%"\<newline>''
          @ ''            | EVAL bucket = DATE_TRUNC(5 MINUTES, @timestamp)\<newline>''
          @ ''            | STATS avg_qps = AVG(http_requests_qps) BY bucket, status_code\<newline>'',
      q_range_duration = Some ''1h'',
      q_step = Some ''5m''\<rparr>\<close>

definition Q3 :: query where
  \<open>Q3 =
     \<lparr>q_name = ''Q3_avg_no_filter_sorted'',
      q_skip = Some False,
      q_promql = ''sort_desc(last_over_time(http_requests_qps[5m]))'',
      q_esql = ''\<newline>''
          @ ''TS metrics-http\<newline>''
          @ ''| WHERE @timestamp >= NOW() - 60 MINUTES \<newline>''
          @ ''  AND @timestamp <= NOW()\<newline>''
          @ ''| EVAL bucket = DATE_TRUNC(5 MINUTES, @timestamp)\<newline>''
          @ ''| STATS avg_qps = AVG(http_requests_qps) BY bucket, instance, status_code, method, job\<newline>''
          @ ''| SORT avg_qps DESC\<newline>'',
      q_range_duration = Some ''1h'',
      q_step = Some ''5m''\<rparr>\<close>

definition Q4 :: query where
  \<open>Q4 =
     \<lparr>q_name = ''Q4_avg_status_code_4xx_5xx_wildcard'',
      q_skip = Some True,
      q_promql = ''avg by (exported_instance) (avg_over_time(http_requests_qps[5m]))'',
      q_esql = ''\<newline>''
          @ ''            TS metrics-*\<newline>''
          @ '' | WHERE @timestamp >= NOW() - 240 MINUTES AND @timestamp <= NOW() \<newline>''
          @ '' | STATS AVG(AVG_OVER_TIME(http_requests_qps)) BY instance, TBUCKET(5m)\<newline>'',
      q_range_duration = Some ''4h'',
      q_step = Some ''5m''\<rparr>\<close>

definition QUERIES :: "query list" where
  "QUERIES = [Q1, Q2, Q3, Q4]"

subsection \<open>Requests, the clock and the trace\<close>

text \<open>
  The three requests the runner sends: an instant query (\<open>query\<close>, \<open>time\<close>), a
  range query (\<open>query\<close>, \<open>start\<close>, \<open>end\<close>, \<open>step\<close>) and an ES|QL query; the last
  component is the timeout in seconds.
\<close>

datatype http_request =
    Get_query string real int
  | Get_query_range string real real int int
  | Post_esql string int

datatype bench_event =
    Printed bench_output
  | Sent http_request
  | Slept real

text \<open>
  The environment of one run: what the \<open>n\<close>-th call of \<open>time.time()\<close> returns,
  the outcome of the \<open>n\<close>-th request, the flag \<open>PRINT_RESULTS\<close>, and what the two
  formatters of a first result do once they have found a result to format (lines 152
  to 195 of \<open>format_prom_result\<close>, lines 203 to 224 of \<open>format_es_result\<close>), which are
  parameters here: they return the text to print, or raise.
\<close>

record bench_env =
  time_time :: "nat \<Rightarrow> real"
  reply :: "nat \<Rightarrow> http_outcome"
  PRINT_RESULTS :: bool
  prom_result_text :: "json \<Rightarrow> py_error + string"
  es_result_text :: "json \<Rightarrow> py_error + string"

text \<open>
  The state of the run: everything printed, sent and slept so far, in order, and how
  often the clock was read and a request was sent.
\<close>

record bench_state =
  events :: "bench_event list"
  n_clock :: nat
  n_sent :: nat

definition initial_state :: bench_state where
  "initial_state = \<lparr>events = [], n_clock = 0, n_sent = 0\<rparr>"

definition read_clock :: "bench_env \<Rightarrow> bench_state \<Rightarrow> real \<times> bench_state" where
  "read_clock env st = (time_time env (n_clock st), st\<lparr>n_clock := Suc (n_clock st)\<rparr>)"

definition send :: "bench_env \<Rightarrow> http_request \<Rightarrow> bench_state \<Rightarrow> http_outcome \<times> bench_state" where
  "send env req st =
     (reply env (n_sent st), st\<lparr>events := events st @ [Sent req], n_sent := Suc (n_sent st)\<rparr>)"

definition print :: "bench_output \<Rightarrow> bench_state \<Rightarrow> bench_state" where
  "print line st = st\<lparr>events := events st @ [Printed line]\<rparr>"

definition sleep :: "real \<Rightarrow> bench_state \<Rightarrow> bench_state" where
  "sleep seconds st = st\<lparr>events := events st @ [Slept seconds]\<rparr>"

subsection \<open>\<open>bench_prom\<close> and \<open>bench_esql\<close>\<close>

text \<open>
  The request of one Prometheus execution (\<open>bench_prom\<close>, lines 80 to 97). With both \<open>range_duration\<close> and \<open>step\<close>
  it is a range query that ends now; \<open>parse_duration\<close> may raise. Otherwise it is an
  instant query at now.
\<close>

definition prom_request ::
  "bench_env \<Rightarrow> query \<Rightarrow> bench_state \<Rightarrow> (py_error + http_request) \<times> bench_state" where
  "prom_request env query st =
     (case (q_range_duration query, q_step query) of
        (Some range_duration, Some step) \<Rightarrow>
          (case parse_duration range_duration of
             Inl e \<Rightarrow> (Inl e, st)
           | Inr duration_seconds \<Rightarrow>
               (case read_clock env st of
                  (end_ts, st1) \<Rightarrow>
                    (let start_ts = end_ts - real_of_int duration_seconds in
                     case parse_duration step of
                       Inl e \<Rightarrow> (Inl e, st1)
                     | Inr step_seconds \<Rightarrow>
                         (Inr (Get_query_range (q_promql query) start_ts end_ts
                                 step_seconds 120), st1))))
      | _ \<Rightarrow>
          (case read_clock env st of
             (now, st1) \<Rightarrow> (Inr (Get_query (q_promql query) now 15), st1)))"

text \<open>
  What follows in both loops (lines 99 to 108 of \<open>bench_prom\<close>, lines 134 to 143 of
  \<open>bench_esql\<close>, which read alike): the clock is read before and after the request, an
  exception of \<open>requests\<close> is not caught, a status other than 200 is printed, the
  first result is parsed from a 200 response of the first execution (which may raise),
  the latency is appended and the loop sleeps. \<open>tag\<close> is \<open>Prom\<close> or \<open>ES|QL\<close>.
\<close>

definition timed_call ::
  "bench_env \<Rightarrow> string \<Rightarrow> query \<Rightarrow> nat \<Rightarrow> http_request \<Rightarrow> real list \<Rightarrow> json option
     \<Rightarrow> bench_state \<Rightarrow> (py_error + real list \<times> json option) \<times> bench_state" where
  "timed_call env tag query i req latencies first_result st =
     (case read_clock env st of
        (t0, st1) \<Rightarrow>
          (case send env req st1 of
             (Request_failed, st2) \<Rightarrow> (Inl RequestException, st2)
           | (Response status body parsed, st2) \<Rightarrow>
               (case read_clock env st2 of
                  (t1, st3) \<Rightarrow>
                    if status \<noteq> 200 then
                      (Inr (latencies @ [(t1 - t0) * 1000], first_result),
                       sleep SLEEP_BETWEEN
                         (print (Print_error tag (q_name query) status (take 200 body)) st3))
                    else if i = 0 then
                      (case parsed of
                         None \<Rightarrow> (Inl JSONDecodeError, st3)
                       | Some j \<Rightarrow>
                           (Inr (latencies @ [(t1 - t0) * 1000], Some j),
                            sleep SLEEP_BETWEEN st3))
                    else
                      (Inr (latencies @ [(t1 - t0) * 1000], first_result),
                       sleep SLEEP_BETWEEN st3))))"

fun prom_runs ::
  "bench_env \<Rightarrow> query \<Rightarrow> nat list \<Rightarrow> real list \<Rightarrow> json option \<Rightarrow> bench_state
     \<Rightarrow> (py_error + real list \<times> json option) \<times> bench_state" where
  "prom_runs env query [] latencies first_result st = (Inr (latencies, first_result), st)"
| "prom_runs env query (i # rest) latencies first_result st =
     (case prom_request env query st of
        (Inl e, st1) \<Rightarrow> (Inl e, st1)
      | (Inr req, st1) \<Rightarrow>
          (case timed_call env ''Prom'' query i req latencies first_result st1 of
             (Inl e, st2) \<Rightarrow> (Inl e, st2)
           | (Inr (latencies', first_result'), st2) \<Rightarrow>
               prom_runs env query rest latencies' first_result' st2))"

definition bench_prom ::
  "bench_env \<Rightarrow> query \<Rightarrow> bench_state \<Rightarrow> (py_error + real list \<times> json option) \<times> bench_state" where
  "bench_prom env query st = prom_runs env query (py_range NUM_RUNS) [] None st"

fun esql_runs ::
  "bench_env \<Rightarrow> query \<Rightarrow> nat list \<Rightarrow> real list \<Rightarrow> json option \<Rightarrow> bench_state
     \<Rightarrow> (py_error + real list \<times> json option) \<times> bench_state" where
  "esql_runs env query [] latencies first_result st = (Inr (latencies, first_result), st)"
| "esql_runs env query (i # rest) latencies first_result st =
     (let timeout = (if q_range_duration query \<noteq> None then 120 else 15) in
      case timed_call env ''ES|QL'' query i (Post_esql (q_esql query) timeout)
             latencies first_result st of
        (Inl e, st1) \<Rightarrow> (Inl e, st1)
      | (Inr (latencies', first_result'), st1) \<Rightarrow>
          esql_runs env query rest latencies' first_result' st1)"

definition bench_esql ::
  "bench_env \<Rightarrow> query \<Rightarrow> bench_state \<Rightarrow> (py_error + real list \<times> json option) \<times> bench_state" where
  "bench_esql env query st = esql_runs env query (py_range NUM_RUNS) [] None st"

subsection \<open>The formatters of a first result\<close>

text \<open>The truth value of a parsed JSON value, which \<open>not result\<close> tests.\<close>

fun py_bool :: "json \<Rightarrow> bool" where
  "py_bool JNull = False"
| "py_bool (JBool b) = b"
| "py_bool (JInt n) = (n \<noteq> 0)"
| "py_bool (JFloat x) = (x \<noteq> 0)"
| "py_bool (JStr s) = (s \<noteq> [])"
| "py_bool (JList xs) = (xs \<noteq> [])"
| "py_bool (JDict kvs) = (kvs \<noteq> [])"

text \<open>
  \<open>format_prom_result\<close> (lines 147 to 195): no result, an empty one, or one whose
  status is not \<open>success\<close> gives a fixed text; a result that is not an object has no
  \<open>get\<close>. \<open>format_es_result\<close> (lines 198 to 224) begins alike, without the status.
\<close>

definition format_prom_result :: "bench_env \<Rightarrow> json option \<Rightarrow> py_error + string" where
  "format_prom_result env result =
     (case result of
        None \<Rightarrow> Inr ''(Error or no data)''
      | Some j \<Rightarrow>
          if \<not> py_bool j then Inr ''(Error or no data)''
          else (case j of
                  JDict kvs \<Rightarrow>
                    if map_of kvs ''status'' \<noteq> Some (JStr ''success'')
                    then Inr ''(Error or no data)''
                    else prom_result_text env j
                | _ \<Rightarrow> Inl AttributeError))"

definition format_es_result :: "bench_env \<Rightarrow> json option \<Rightarrow> py_error + string" where
  "format_es_result env result =
     (case result of
        None \<Rightarrow> Inr ''(Error or no data)''
      | Some j \<Rightarrow>
          if \<not> py_bool j then Inr ''(Error or no data)''
          else (case j of
                  JDict kvs \<Rightarrow> es_result_text env j
                | _ \<Rightarrow> Inl AttributeError))"

subsection \<open>The main loop\<close>

text \<open>\<open>q.get("skip")\<close> as a condition: true only for a flag that is set.\<close>

definition skipped :: "query \<Rightarrow> bool" where
  "skipped q = (q_skip q = Some True)"

text \<open>The block under \<open>if PRINT_RESULTS\<close>: five prints, two of them of formatted results.\<close>

definition print_results ::
  "bench_env \<Rightarrow> json option \<Rightarrow> json option \<Rightarrow> bench_state \<Rightarrow> py_error option \<times> bench_state" where
  "print_results env prom_result es_result st =
     (let st1 = print (Print_line ''\<newline>[Prometheus Result]:'') st in
      case format_prom_result env prom_result of
        Inl e \<Rightarrow> (Some e, st1)
      | Inr prom_text \<Rightarrow>
          (let st2 = print (Print_line ''\<newline>[Elasticsearch ES|QL Result]:'')
                       (print (Print_line prom_text) st1) in
           case format_es_result env es_result of
             Inl e \<Rightarrow> (Some e, st2)
           | Inr es_text \<Rightarrow> (None, print (Print_line []) (print (Print_line es_text) st2))))"

text \<open>
  The body of the main loop for one query (lines 240 to 258), and the loop over the
  catalogue. The result is the exception that ended the run, or \<open>None\<close> when the run
  came to its end.
\<close>

definition run_query :: "bench_env \<Rightarrow> query \<Rightarrow> bench_state \<Rightarrow> py_error option \<times> bench_state" where
  "run_query env q st =
     (if skipped q then
        (None, print Print_skipping (print (Print_header (q_name q)) st))
      else
        case bench_prom env q (print (Print_header (q_name q)) st) of
          (Inl e, st1) \<Rightarrow> (Some e, st1)
        | (Inr (prom_lats, prom_result), st1) \<Rightarrow>
            (case bench_esql env q st1 of
               (Inl e, st2) \<Rightarrow> (Some e, st2)
             | (Inr (es_lats, es_result), st2) \<Rightarrow>
                 (case (if PRINT_RESULTS env then print_results env prom_result es_result st2
                        else (None, st2)) of
                    (Some e, st3) \<Rightarrow> (Some e, st3)
                  | (None, st3) \<Rightarrow>
                      (case summarize ''Prometheus'' prom_lats of
                         Inl e \<Rightarrow> (Some e, st3)
                       | Inr prom_line \<Rightarrow>
                           (case summarize ''Elasticsearch ES|QL'' es_lats of
                              Inl e \<Rightarrow> (Some e, print prom_line st3)
                            | Inr es_line \<Rightarrow> (None, print es_line (print prom_line st3)))))))"

fun run_queries ::
  "bench_env \<Rightarrow> query list \<Rightarrow> bench_state \<Rightarrow> py_error option \<times> bench_state" where
  "run_queries env [] st = (None, st)"
| "run_queries env (q # qs) st =
     (case run_query env q st of
        (Some e, st1) \<Rightarrow> (Some e, st1)
      | (None, st1) \<Rightarrow> run_queries env qs st1)"

definition main :: "bench_env \<Rightarrow> py_error option \<times> bench_state" where
  "main env = run_queries env QUERIES initial_state"

subsection \<open>Reading a run back\<close>

text \<open>
  The query text of a request, and the texts of all requests in a trace, in the order
  they were sent.
\<close>

fun query_text :: "http_request \<Rightarrow> string" where
  "query_text (Get_query q _ _) = q"
| "query_text (Get_query_range q _ _ _ _) = q"
| "query_text (Post_esql q _) = q"

fun event_text :: "bench_event \<Rightarrow> string list" where
  "event_text (Sent r) = [query_text r]"
| "event_text _ = []"

definition texts_of :: "bench_event list \<Rightarrow> string list" where
  "texts_of es = concat (map event_text es)"

text \<open>
  The milestones of a trace: the headers, the skip notices and the summaries (by the
  name they are printed under), in the order they were printed.
\<close>

datatype milestone =
    Header string
  | Skipping
  | Summary string

fun event_mark :: "bench_event \<Rightarrow> milestone list" where
  "event_mark (Printed (Print_header n)) = [Header n]"
| "event_mark (Printed Print_skipping) = [Skipping]"
| "event_mark (Printed (Print_summary n _ _)) = [Summary n]"
| "event_mark _ = []"

definition marks_of :: "bench_event list \<Rightarrow> milestone list" where
  "marks_of es = concat (map event_mark es)"

text \<open>The error lines of a trace, in the order they were printed.\<close>

fun event_error :: "bench_event \<Rightarrow> bench_output list" where
  "event_error (Printed (Print_error tag name status body)) = [Print_error tag name status body]"
| "event_error _ = []"

definition errors_of :: "bench_event list \<Rightarrow> bench_output list" where
  "errors_of es = concat (map event_error es)"


text \<open>What a query definition is expected to leave in a run that comes to its end.\<close>

definition expected_texts :: "query \<Rightarrow> string list" where
  "expected_texts q =
     (if skipped q then []
      else replicate (nat NUM_RUNS) (q_promql q) @ replicate (nat NUM_RUNS) (q_esql q))"

definition expected_marks :: "query \<Rightarrow> milestone list" where
  "expected_marks q =
     (if skipped q then [Header (q_name q), Skipping]
      else [Header (q_name q), Summary ''Prometheus'', Summary ''Elasticsearch ES|QL''])"

text \<open>
  A request that is answered: the backend sends a response, whatever its status, and
  when the first execution is answered with status 200 its body is JSON.
\<close>

definition answered :: "bench_env \<Rightarrow> nat \<Rightarrow> nat \<Rightarrow> bool" where
  "answered env n i =
     (case reply env n of
        Request_failed \<Rightarrow> False
      | Response status _ parsed \<Rightarrow> \<not> (status = 200 \<and> i = 0 \<and> parsed = None))"

text \<open>
  A request answered with an error: a response whose status is not 200. And what it
  takes for the optional printing of results not to raise.
\<close>

definition error_response :: "bench_env \<Rightarrow> nat \<Rightarrow> bool" where
  "error_response env n =
     (case reply env n of Request_failed \<Rightarrow> False | Response status _ _ \<Rightarrow> status \<noteq> 200)"

definition printing_ok :: "bench_env \<Rightarrow> bool" where
  "printing_ok env =
     (PRINT_RESULTS env \<longrightarrow> (\<forall>r. \<not> isl (format_prom_result env r) \<and> \<not> isl (format_es_result env r)))"

text \<open>The durations of a range query parse.\<close>

definition durations_ok :: "query \<Rightarrow> bool" where
  "durations_ok q =
     (case (q_range_duration q, q_step q) of
        (Some range_duration, Some step) \<Rightarrow>
          \<not> isl (parse_duration range_duration) \<and> \<not> isl (parse_duration step)
      | _ \<Rightarrow> True)"

text \<open>
  The latency of a call whose first clock reading is the \<open>c\<close>-th: the difference
  of the two readings around the request, in milliseconds.
\<close>

definition elapsed_ms :: "bench_env \<Rightarrow> nat \<Rightarrow> real" where
  "elapsed_ms env c = (time_time env (Suc c) - time_time env c) * 1000"

text \<open>
  Environments for examples: the clock ticks a quarter of a second per reading,
  nothing extra is printed, and the backends either answer every request with status
  500, or cannot be reached, or the first five requests (those of the first query to
  Prometheus) are answered with an empty result and the others cannot be sent.
\<close>

definition env_all_500 :: bench_env where
  "env_all_500 =
     \<lparr>time_time = (\<lambda>n. real n / 4),
      reply = (\<lambda>n. Response 500 ''Internal Server Error'' None),
      PRINT_RESULTS = False,
      prom_result_text = (\<lambda>r. Inr []),
      es_result_text = (\<lambda>r. Inr [])\<rparr>"


definition env_es_down :: bench_env where
  "env_es_down =
     \<lparr>time_time = (\<lambda>n. real n / 4),
      reply = (\<lambda>n. if n < 5 then Response 200 ''{}'' (Some (JDict [])) else Request_failed),
      PRINT_RESULTS = False,
      prom_result_text = (\<lambda>r. Inr []),
      es_result_text = (\<lambda>r. Inr [])\<rparr>"

section \<open>Facts about \<open>int()\<close> on digit strings\<close>

lemma int_digits_decimal:
  "list_all decimal_digit ds \<Longrightarrow> int_digits ds acc = Some (acc * 10 ^ length ds + decimal ds)"
  by (induction ds arbitrary: acc) (simp_all add: algebra_simps)

lemma digit_not_space: "decimal_digit c \<Longrightarrow> \<not> str_isspace c"
  by (simp add: decimal_digit_def str_isspace_def)

lemma decimal_digit_isdigit: "decimal_digit c \<Longrightarrow> str_isdigit c"
  by (simp add: str_isdigit_def)

lemma digit_not_sign: "decimal_digit c \<Longrightarrow> c \<noteq> CHR ''-'' \<and> c \<noteq> CHR ''+''"
  by (auto simp: decimal_digit_def)

lemma str_strip_digits:
  assumes "ds \<noteq> []" and "list_all decimal_digit ds"
  shows "str_strip ds = ds"
proof -
  from assms obtain c cs where ds: "ds = c # cs" and c: "decimal_digit c"
    by (cases ds) auto
  from assms have "rev ds \<noteq> []" and "decimal_digit (hd (rev ds))"
    by (simp_all add: hd_rev list_all_iff)
  then obtain e es where r: "rev ds = e # es" and e: "decimal_digit e"
    by (cases "rev ds") auto
  have "dropWhile str_isspace ds = ds"
    using ds c by (simp add: digit_not_space)
  moreover have "dropWhile str_isspace (rev ds) = rev ds"
    using r e by (simp add: digit_not_space)
  ultimately show ?thesis
    by (simp add: str_strip_def)
qed

lemma py_int_digits:
  assumes "ds \<noteq> []" and "list_all decimal_digit ds"
  shows "py_int ds = Inr (int (decimal ds))"
proof -
  from assms obtain c cs where ds: "ds = c # cs" and c: "decimal_digit c"
    by (cases ds) auto
  have body: "int_digits (c # cs) 0 = Some (decimal (c # cs))"
    using int_digits_decimal [OF assms(2), of 0] ds by simp
  have strip: "str_strip (c # cs) = c # cs"
    using str_strip_digits [OF assms] ds by simp
  have "py_int (c # cs) = Inr (int (decimal (c # cs)))"
    unfolding py_int_def strip Let_def
    using c digit_not_sign [OF c] body by simp
  then show ?thesis
    using ds by simp
qed

lemma parse_duration_unit:
  assumes "ds \<noteq> []" and "list_all decimal_digit ds" and "\<not> str_isdigit u"
  shows "parse_duration (ds @ [u]) = Inr (int (decimal ds) * units_get (str_lower u) 1)"
  using assms by (simp add: parse_duration_def py_int_digits Let_def)

lemma parse_duration_numeric:
  assumes "ds \<noteq> []" and "list_all decimal_digit ds"
  shows "parse_duration ds = Inr (int (decimal ds))"
proof -
  from assms have "str_isdigit (last ds)"
    by (simp add: list_all_iff decimal_digit_isdigit)
  with assms show ?thesis
    by (simp add: parse_duration_def py_int_digits)
qed

text \<open>
  A superscript digit at the end is a digit for \<open>isdigit()\<close> and no digit for
  \<open>int()\<close>: the whole string goes to \<open>int()\<close>, which raises.
\<close>

lemma parse_duration_superscript: "parse_duration (''5'' @ [CHR 0xB2]) = Inl ValueError"
  by (simp add: parse_duration_def str_isdigit_def py_int_def str_strip_def str_isspace_def
      decimal_digit_def Let_def)

section \<open>Facts about the median of a sorted list\<close>

lemma filter_length_sort:
  "length (filter P (sort xs)) = length (filter P (xs :: real list))"
proof -
  have "mset (filter P (sort xs)) = mset (filter P xs)"
    by simp
  then show ?thesis
    by (metis size_mset)
qed

lemma count_le_sorted:
  assumes "sorted (s :: real list)" and "k < length s" and "s ! k \<le> m"
  shows "k + 1 \<le> length (filter (\<lambda>x. x \<le> m) s)"
proof -
  have all: "\<forall>x \<in> set (take (k + 1) s). x \<le> m"
  proof
    fix x assume "x \<in> set (take (k + 1) s)"
    then obtain j where j: "j < k + 1" "j < length s" "x = s ! j"
      by (auto simp: in_set_conv_nth)
    then have "s ! j \<le> s ! k"
      using assms(1,2) by (intro sorted_nth_mono) auto
    with j assms(3) show "x \<le> m" by simp
  qed
  have "filter (\<lambda>x. x \<le> m) s
      = filter (\<lambda>x. x \<le> m) (take (k + 1) s) @ filter (\<lambda>x. x \<le> m) (drop (k + 1) s)"
    by (metis append_take_drop_id filter_append)
  moreover have "filter (\<lambda>x. x \<le> m) (take (k + 1) s) = take (k + 1) s"
    using all by (simp add: filter_id_conv)
  ultimately have "length (filter (\<lambda>x. x \<le> m) s) \<ge> length (take (k + 1) s)"
    by simp
  then show ?thesis
    using assms(2) by simp
qed

lemma count_ge_sorted:
  assumes "sorted (s :: real list)" and "k < length s" and "m \<le> s ! k"
  shows "length s - k \<le> length (filter (\<lambda>x. m \<le> x) s)"
proof -
  have all: "\<forall>x \<in> set (drop k s). m \<le> x"
  proof
    fix x assume "x \<in> set (drop k s)"
    then obtain j where j: "j < length s - k" "x = s ! (k + j)"
      by (auto simp: in_set_conv_nth)
    then have "s ! k \<le> s ! (k + j)"
      using assms(1,2) by (intro sorted_nth_mono) auto
    with j assms(3) show "m \<le> x" by simp
  qed
  have "filter (\<lambda>x. m \<le> x) s
      = filter (\<lambda>x. m \<le> x) (take k s) @ filter (\<lambda>x. m \<le> x) (drop k s)"
    by (metis append_take_drop_id filter_append)
  moreover have "filter (\<lambda>x. m \<le> x) (drop k s) = drop k s"
    using all by (simp add: filter_id_conv)
  ultimately have "length (filter (\<lambda>x. m \<le> x) s) \<ge> length (drop k s)"
    by simp
  then show ?thesis
    by simp
qed

lemma median_is_median:
  assumes "xs \<noteq> []"
  shows "\<exists>m. median xs = Inr m \<and> is_median xs m"
proof -
  define s where "s = sort xs"
  define n where "n = length s"
  have srt: "sorted s" and n0: "0 < n" and len: "length xs = n"
    using assms by (simp_all add: s_def n_def)
  have sne: "s \<noteq> []"
    using n0 by (auto simp: n_def)
  have fl: "length (filter P xs) = length (filter P s)" for P
    by (simp add: s_def filter_length_sort)
  show ?thesis
  proof (cases "n mod 2 = 1")
    case True
    define m where "m = s ! (n div 2)"
    have k: "n div 2 < length s" using n0 by (simp add: n_def)
    have med: "median xs = Inr m"
      using True sne by (simp add: median_def Let_def s_def [symmetric] n_def [symmetric] m_def)
    have a: "n div 2 + 1 \<le> length (filter (\<lambda>x. x \<le> m) s)"
      by (rule count_le_sorted [OF srt k]) (simp add: m_def)
    have b: "length s - n div 2 \<le> length (filter (\<lambda>x. m \<le> x) s)"
      by (rule count_ge_sorted [OF srt k]) (simp add: m_def)
    have "is_median xs m"
      unfolding is_median_def len
      using a b True
      by (simp add: fl n_def [symmetric]) presburger
    with med show ?thesis by blast
  next
    case False
    then have ev: "n mod 2 = 0" by presburger
    define i where "i = n div 2"
    define m where "m = (s ! (i - 1) + s ! i) / 2"
    have "i < n" and "i - 1 < n" and ipos: "0 < i"
      using n0 ev unfolding i_def by presburger+
    then have i: "i < length s" "i - 1 < length s" "0 < i"
      by (simp_all add: n_def)
    have ord: "s ! (i - 1) \<le> s ! i"
      using srt i by (intro sorted_nth_mono) auto
    have med: "median xs = Inr m"
      using ev sne by (simp add: median_def Let_def s_def [symmetric] n_def [symmetric] m_def i_def)
    have a: "(i - 1) + 1 \<le> length (filter (\<lambda>x. x \<le> m) s)"
      by (rule count_le_sorted [OF srt i(2)]) (use ord in \<open>simp add: m_def\<close>)
    have b: "length s - i \<le> length (filter (\<lambda>x. m \<le> x) s)"
      by (rule count_ge_sorted [OF srt i(1)]) (use ord in \<open>simp add: m_def\<close>)
    have "is_median xs m"
      unfolding is_median_def len
      using a b ev i
      by (simp add: fl n_def [symmetric] i_def) presburger
    with med show ?thesis by blast
  qed
qed

lemma idx95_floor:
  "int_of_float (0.95 * real_of_int (int (Suc n) - 1)) = \<lfloor>0.95 * real n\<rfloor>"
  by (simp add: int_of_float_def)

lemma idx95_bound: "nat \<lfloor>0.95 * real n\<rfloor> \<le> n"
proof -
  have "0.95 * real n \<le> real n" by simp
  then have "\<lfloor>0.95 * real n\<rfloor> \<le> int n" by linarith
  then show ?thesis by linarith
qed

lemma summarize_run:
  assumes "latencies \<noteq> []"
  shows "\<exists>m. median latencies = Inr m \<and> is_median latencies m
           \<and> summarize name latencies
               = Inr (Print_summary name m
                        (sort latencies ! nat \<lfloor>0.95 * real (length latencies - 1)\<rfloor>))"
proof -
  define n where "n = length latencies - 1"
  have len: "length latencies = Suc n"
    using assms by (simp add: n_def)
  obtain m where med: "median latencies = Inr m" and ism: "is_median latencies m"
    using median_is_median [OF assms] by blast
  have idx: "int_of_float (0.95 * real_of_int (int (length (sort latencies)) - 1))
             = \<lfloor>0.95 * real n\<rfloor>"
    using idx95_floor [of n] by (simp add: len)
  have nonneg: "0 \<le> \<lfloor>0.95 * real n\<rfloor>"
    by simp
  have bound: "nat \<lfloor>0.95 * real n\<rfloor> < Suc n"
    using idx95_bound [of n] by simp
  then have inside: "\<lfloor>0.95 * real n\<rfloor> < int (length (sort latencies))"
    using nonneg by (simp add: len)
  have item: "list_item (sort latencies) \<lfloor>0.95 * real n\<rfloor>
              = Inr (sort latencies ! nat \<lfloor>0.95 * real n\<rfloor>)"
    using nonneg inside by (simp add: list_item_def)
  have run: "summarize name latencies
             = Inr (Print_summary name m (sort latencies ! nat \<lfloor>0.95 * real n\<rfloor>))"
    unfolding summarize_def Let_def idx med item by simp
  have n_eq: "length latencies - 1 = n"
    by (simp add: n_def)
  show ?thesis
    unfolding n_eq using med ism run by blast
qed

section \<open>Facts about the label space\<close>

lemma digit_value_digit_char: "d < 10 \<Longrightarrow> digit_value (digit_char d) = d"
  by (simp add: digit_value_def digit_char_def)

lemma decimal_snoc: "decimal (cs @ [c]) = 10 * decimal cs + digit_value c"
  by (induction cs) simp_all

lemma decimal_str_of_nat: "decimal (str_of_nat n) = n"
proof (induction n rule: str_of_nat.induct)
  case (1 n)
  show ?case
  proof (cases "n < 10")
    case True
    then show ?thesis
      by (subst str_of_nat.simps) (simp add: digit_value_digit_char)
  next
    case False
    then have "decimal (str_of_nat (n div 10)) = n div 10"
      using 1 by simp
    with False show ?thesis
      by (subst str_of_nat.simps) (simp add: decimal_snoc digit_value_digit_char)
  qed
qed

lemma decimal_zero_pad: "decimal (replicate k (CHR ''0'') @ cs) = decimal cs"
  by (induction k) (simp_all add: digit_value_def)

lemma decimal_format_05d: "decimal (format_05d i) = i"
  by (simp add: format_05d_def decimal_zero_pad decimal_str_of_nat)

lemma format_05d_inj: "format_05d i = format_05d j \<Longrightarrow> i = j"
  by (metis decimal_format_05d)

lemma concat_map_product:
  "concat (map (\<lambda>x. map (f x) ys) xs) = map (\<lambda>(x, y). f x y) (List.product xs ys)"
  by (induction xs) simp_all

lemma generate_series_product:
  "generate_series cfg =
     map mk_labels (List.product (py_range (NUM_INSTANCES cfg))
                      (List.product (STATUS_CODES cfg) (METHODS cfg)))"
proof -
  have inner: "concat (map (\<lambda>sc. map (\<lambda>m. mk_labels (i, sc, m)) (METHODS cfg)) (STATUS_CODES cfg))
        = map (\<lambda>p. mk_labels (i, p)) (List.product (STATUS_CODES cfg) (METHODS cfg))" for i
    by (simp add: concat_map_product [of "\<lambda>sc m. mk_labels (i, sc, m)"] split_def)
  have "generate_series cfg
      = concat (map (\<lambda>i. concat (map (\<lambda>sc. map (\<lambda>m. mk_labels (i, sc, m)) (METHODS cfg)) (STATUS_CODES cfg)))
          (py_range (NUM_INSTANCES cfg)))"
    by (simp add: generate_series_def mk_labels_def)
  also have "\<dots> = concat (map (\<lambda>i. map (\<lambda>p. mk_labels (i, p)) (List.product (STATUS_CODES cfg) (METHODS cfg)))
          (py_range (NUM_INSTANCES cfg)))"
    by (simp only: inner)
  also have "\<dots> = map mk_labels (List.product (py_range (NUM_INSTANCES cfg))
                      (List.product (STATUS_CODES cfg) (METHODS cfg)))"
    by (simp add: concat_map_product [of "\<lambda>i p. mk_labels (i, p)"] split_def)
  finally show ?thesis .
qed

lemma mk_labels_inj: "inj mk_labels"
  by (auto simp: inj_def mk_labels_def dest: format_05d_inj)

lemma distinct_slice_to: "distinct xs \<Longrightarrow> distinct (slice_to xs n)"
  by (simp add: slice_to_def)

lemma length_slice_to:
  "length (slice_to xs n) =
     (if 0 \<le> n then min (nat n) (length xs) else nat (int (length xs) + n))"
  by (auto simp: slice_to_def)

lemma distinct_generate_series: "distinct (generate_series cfg)"
proof -
  have "distinct (STATUS_CODES cfg)" "distinct (METHODS cfg)"
    by (simp_all add: STATUS_CODES_def METHODS_def distinct_slice_to)
  then have "distinct (List.product (py_range (NUM_INSTANCES cfg))
                      (List.product (STATUS_CODES cfg) (METHODS cfg)))"
    by (simp add: distinct_product py_range_def)
  then show ?thesis
    unfolding generate_series_product
    by (simp add: distinct_map inj_on_subset [OF mk_labels_inj])
qed

lemma length_generate_series:
  "length (generate_series cfg) =
     nat (NUM_INSTANCES cfg) * length (STATUS_CODES cfg) * length (METHODS cfg)"
  by (simp add: generate_series_product py_range_def)

lemma length_STATUS_CODES:
  "length (STATUS_CODES cfg) =
     (if 0 \<le> NUM_STATUS_CODES cfg then min (nat (NUM_STATUS_CODES cfg)) 5
      else nat (5 + NUM_STATUS_CODES cfg))"
  by (auto simp: STATUS_CODES_def slice_to_def)

lemma length_METHODS:
  "length (METHODS cfg) =
     (if 0 \<le> NUM_METHODS cfg then min (nat (NUM_METHODS cfg)) 2
      else nat (2 + NUM_METHODS cfg))"
  by (auto simp: METHODS_def slice_to_def)

section \<open>Facts about one tick\<close>

lemma bulk_loop_lines:
  "fst (bulk_loop dumps ts noise ls k lines g)
     = lines @ concat (map (\<lambda>(l, j). [dumps bulk_action,
                  dumps (bulk_doc ts l (compute_value (l_status_code l) (noise j)))])
                (zip ls [k ..< k + length ls]))"
proof (induction ls arbitrary: k lines g)
  case Nil
  then show ?case by simp
next
  case (Cons l ls)
  have up: "[k ..< k + length (l # ls)] = k # [Suc k ..< Suc k + length ls]"
    by (subst upt_rec) simp
  show ?case
    unfolding up by (simp add: Cons.IH Let_def)
qed

lemma zip_upt_map:
  "zip ls [0 ..< length ls] = map (\<lambda>j. (ls ! j, j)) [0 ..< length ls]"
  by (rule nth_equalityI) simp_all

lemma bulk_loop_lines0:
  "fst (bulk_loop dumps ts noise ls 0 [] g)
     = concat (map (sample_lines dumps ts noise ls) [0 ..< length ls])"
proof -
  have "fst (bulk_loop dumps ts noise ls 0 [] g)
      = concat (map (\<lambda>(l, j). [dumps bulk_action,
                  dumps (bulk_doc ts l (compute_value (l_status_code l) (noise j)))])
                (map (\<lambda>j. (ls ! j, j)) [0 ..< length ls]))"
    using bulk_loop_lines [of dumps ts noise ls 0 "[]" g] by (simp add: zip_upt_map)
  also have "\<dots> = concat (map (sample_lines dumps ts noise ls) [0 ..< length ls])"
    by (simp add: comp_def sample_lines_def [abs_def] sample_value_def [abs_def])
  finally show ?thesis .
qed

lemma length_concat_pairs:
  "length (concat (map f js)) = 2 * length js" if "\<And>j. length (f j) = 2"
  using that by (induction js) simp_all

lemma nth_concat_pairs:
  assumes "\<And>j. length (f j) = 2" and "i < length js"
  shows "concat (map f js) ! (2 * i) = f (js ! i) ! 0
       \<and> concat (map f js) ! (2 * i + 1) = f (js ! i) ! 1"
  using assms(2)
proof (induction js arbitrary: i)
  case Nil
  then show ?case by simp
next
  case (Cons a js)
  have la: "length (f a) = 2" by (rule assms(1))
  show ?case
  proof (cases i)
    case 0
    then show ?thesis
      using la by (simp add: nth_append)
  next
    case (Suc i')
    with Cons.prems have "i' < length js" by simp
    from Cons.IH [OF this] Suc la show ?thesis
      by (simp add: nth_append)
  qed
qed

lemma bulk_loop_gauge_other:
  "l \<notin> set ls \<Longrightarrow> snd (bulk_loop dumps ts noise ls k lines g) l = g l"
  by (induction ls arbitrary: k lines g) (auto simp: Let_def)

lemma bulk_loop_gauge_nth:
  assumes "distinct ls" and "j < length ls"
  shows "snd (bulk_loop dumps ts noise ls k lines g) (ls ! j)
         = Some (compute_value (l_status_code (ls ! j)) (noise (k + j)))"
  using assms
proof (induction ls arbitrary: k lines g j)
  case Nil
  then show ?case by simp
next
  case (Cons l ls)
  show ?case
  proof (cases j)
    case 0
    from Cons.prems have "l \<notin> set ls" by simp
    with 0 show ?thesis
      by (simp add: Let_def bulk_loop_gauge_other)
  next
    case (Suc j')
    with Cons.prems have "distinct ls" "j' < length ls" by simp_all
    from Cons.IH [OF this] Suc show ?thesis
      by (simp add: Let_def)
  qed
qed

lemma str_split_nonempty: "str_split sep s \<noteq> []"
  by (induction s) (auto split: list.splits)

lemma str_split_piece:
  "sep \<notin> set w \<Longrightarrow> str_split sep (w @ sep # rest) = w # str_split sep rest"
proof (induction w)
  case Nil
  then show ?case by simp
next
  case (Cons c w)
  then show ?case
    by (auto split: list.splits)
qed

lemma str_split_join:
  assumes "\<forall>w \<in> set ws. sep \<notin> set w" and "ws \<noteq> []"
  shows "str_split sep (str_join [sep] ws @ [sep]) = ws @ [[]]"
  using assms
proof (induction "[sep]" ws rule: str_join.induct)
  case 1
  then show ?case by simp
next
  case (2 x)
  then show ?case
    using str_split_piece [of sep x "[]"] by simp
next
  case (3 x y ys)
  then have "str_split sep (str_join [sep] (y # ys) @ [sep]) = (y # ys) @ [[]]"
    by simp
  moreover have "sep \<notin> set x"
    using 3 by simp
  ultimately show ?case
    using str_split_piece [of sep x "str_join [sep] (y # ys) @ [sep]"] by simp
qed

lemma build_bulk_payload_body:
  "fst (build_bulk_payload dumps cfg noise ts g)
     = str_join ''\<newline>'' (tick_lines dumps cfg noise ts) @ ''\<newline>''"
  using bulk_loop_lines0 [of dumps ts noise "generate_series cfg" g]
  by (simp add: build_bulk_payload_def tick_lines_def case_prod_beta)

lemma build_bulk_payload_gauge:
  "snd (build_bulk_payload dumps cfg noise ts g)
     = snd (bulk_loop dumps ts noise (generate_series cfg) 0 [] g)"
  by (simp add: build_bulk_payload_def case_prod_beta)

lemma length_tick_lines:
  "length (tick_lines dumps cfg noise ts) = 2 * length (generate_series cfg)"
  unfolding tick_lines_def
  by (subst length_concat_pairs) (simp_all add: sample_lines_def)

lemma nth_tick_lines:
  assumes "j < length (generate_series cfg)"
  shows "tick_lines dumps cfg noise ts ! (2 * j) = dumps bulk_action"
    and "tick_lines dumps cfg noise ts ! (2 * j + 1)
         = dumps (bulk_doc ts (generate_series cfg ! j)
                    (sample_value noise (generate_series cfg) j))"
proof -
  have two: "\<And>i. length (sample_lines dumps ts noise (generate_series cfg) i) = 2"
    by (simp add: sample_lines_def)
  have j: "j < length [0 ..< length (generate_series cfg)]"
    using assms by simp
  from nth_concat_pairs [of "sample_lines dumps ts noise (generate_series cfg)", OF two j]
  show "tick_lines dumps cfg noise ts ! (2 * j) = dumps bulk_action"
    and "tick_lines dumps cfg noise ts ! (2 * j + 1)
         = dumps (bulk_doc ts (generate_series cfg ! j)
                    (sample_value noise (generate_series cfg) j))"
    using assms by (simp_all add: tick_lines_def sample_lines_def)
qed

lemma gauge_after_tick:
  assumes "j < length (generate_series cfg)"
  shows "snd (build_bulk_payload dumps cfg noise ts g) (generate_series cfg ! j)
         = Some (sample_value noise (generate_series cfg) j)"
  using bulk_loop_gauge_nth [OF distinct_generate_series assms, of dumps ts noise 0 "[]" g]
  by (simp add: build_bulk_payload_gauge sample_value_def)

lemma gauge_after_tick_other:
  "l \<notin> set (generate_series cfg)
   \<Longrightarrow> snd (build_bulk_payload dumps cfg noise ts g) l = g l"
  by (simp add: build_bulk_payload_gauge bulk_loop_gauge_other)

lemma dom_gauge_after_tick:
  "dom (snd (build_bulk_payload dumps cfg noise ts g)) = dom g \<union> set (generate_series cfg)"
proof (rule set_eqI)
  fix l
  show "l \<in> dom (snd (build_bulk_payload dumps cfg noise ts g))
        \<longleftrightarrow> l \<in> dom g \<union> set (generate_series cfg)"
  proof (cases "l \<in> set (generate_series cfg)")
    case True
    then obtain j where "j < length (generate_series cfg)" "generate_series cfg ! j = l"
      by (auto simp: in_set_conv_nth)
    with gauge_after_tick [of j cfg dumps noise ts g] True show ?thesis
      by auto
  next
    case False
    with gauge_after_tick_other [OF False, of dumps noise ts g] show ?thesis
      by (auto simp: dom_def)
  qed
qed

lemma bulk_doc_fields:
  "json_field (bulk_doc ts l v) ''@timestamp'' = Some (JStr ts)"
  "json_field (bulk_doc ts l v) ''http_requests_qps'' = Some (JFloat v)"
  "json_field (bulk_doc ts l v) ''job'' = Some (JStr (l_job l))"
  "json_field (bulk_doc ts l v) ''instance'' = Some (JStr (l_instance l))"
  "json_field (bulk_doc ts l v) ''status_code'' = Some (JStr (l_status_code l))"
  "json_field (bulk_doc ts l v) ''method'' = Some (JStr (l_method l))"
  by (simp_all add: json_field_def bulk_doc_def)

lemma set_generate_series:
  "set (generate_series cfg)
     = mk_labels ` ({..< nat (NUM_INSTANCES cfg)} \<times> set (STATUS_CODES cfg) \<times> set (METHODS cfg))"
  by (simp add: generate_series_product py_range_def lessThan_atLeast0)

section \<open>Facts about the ingest loop\<close>

lemma is_Post_bulk_simps:
  "is_Post_bulk (Post_bulk b)" "\<not> is_Post_bulk (Sleep r)" "\<not> is_Post_bulk Log_send_error"
  "\<not> is_Post_bulk (Log_bulk_error st)" "\<not> is_Post_bulk Verify_first_batch"
  "\<not> is_Post_bulk (Raised e)"
  by (simp_all add: is_Post_bulk_def)

lemma is_Call_ensure_index_simps:
  "is_Call_ensure_index (Call_ensure_index k)" "\<not> is_Call_ensure_index (Post_bulk b)"
  "\<not> is_Call_ensure_index (Sleep r)" "\<not> is_Call_ensure_index Log_send_error"
  "\<not> is_Call_ensure_index (Log_bulk_error st)" "\<not> is_Call_ensure_index Verify_first_batch"
  "\<not> is_Call_ensure_index (Log_retry i j)" "\<not> is_Call_ensure_index Log_setup_failed"
  "\<not> is_Call_ensure_index Log_loop_starting" "\<not> is_Call_ensure_index Log_es_unavailable"
  "\<not> is_Call_ensure_index (Raised e)"
  by (simp_all add: is_Call_ensure_index_def)

lemma tick_loop_posts:
  "length (filter is_Post_bulk (fst (tick_loop dumps cfg env fuel n first_batch g)))
     = (if TICK_SECONDS cfg < 0 then min fuel 1 else fuel)"
proof (induction fuel arbitrary: n first_batch g)
  case 0
  then show ?case by simp
next
  case (Suc fuel)
  show ?case
    by (auto simp: Suc.IH is_Post_bulk_simps Let_def case_prod_beta split: http_outcome.splits)
qed

lemma setup_loop_calls:
  "length (filter is_Call_ensure_index (setup_loop rs k attempts)) \<le> length attempts"
  by (induction attempts) (auto simp: is_Call_ensure_index_simps)

lemma tick_loop_no_calls:
  "filter is_Call_ensure_index (fst (tick_loop dumps cfg env fuel n first_batch g)) = []"
proof (induction fuel arbitrary: n first_batch g)
  case 0
  then show ?case by simp
next
  case (Suc fuel)
  show ?case
    by (auto simp: Suc.IH is_Call_ensure_index_simps Let_def case_prod_beta split: http_outcome.splits)
qed

lemma range3: "py_range 3 = [0, 1, 2]"
  by (simp add: py_range_def upt_rec)

lemma setup_loop_three:
  "setup_loop rs 3 (py_range 3) =
     (if ensure_index (rs 0) then [Call_ensure_index 0]
      else if ensure_index (rs 1)
        then [Call_ensure_index 0, Log_retry 1 3, Sleep 2, Call_ensure_index 1]
      else if ensure_index (rs 2)
        then [Call_ensure_index 0, Log_retry 1 3, Sleep 2, Call_ensure_index 1,
              Log_retry 2 3, Sleep 2, Call_ensure_index 2]
      else [Call_ensure_index 0, Log_retry 1 3, Sleep 2, Call_ensure_index 1,
            Log_retry 2 3, Sleep 2, Call_ensure_index 2, Log_setup_failed])"
  by (simp add: range3)

lemma ingest_loop_ready:
  "es_ready env \<Longrightarrow>
   fst (ingest_loop dumps cfg env fuel g)
     = setup_loop (setup_calls env) 3 (py_range 3)
       @ Log_loop_starting # fst (tick_loop dumps cfg env fuel 0 True g)"
  by (simp add: ingest_loop_def Let_def case_prod_beta)

lemma ingest_loop_calls:
  "length (filter is_Call_ensure_index (fst (ingest_loop dumps cfg env fuel g))) \<le> 3"
proof (cases "es_ready env")
  case True
  have "length (filter is_Call_ensure_index (setup_loop (setup_calls env) 3 (py_range 3))) \<le> 3"
    using setup_loop_calls [of "setup_calls env" 3 "py_range 3"] by (simp add: range3)
  then show ?thesis
    by (simp add: ingest_loop_ready [OF True] tick_loop_no_calls is_Call_ensure_index_simps)
next
  case False
  then show ?thesis
    by (simp add: ingest_loop_def is_Call_ensure_index_simps)
qed

section \<open>Facts about the benchmark loops\<close>

lemma texts_of_append [simp]: "texts_of (xs @ ys) = texts_of xs @ texts_of ys"
  by (simp add: texts_of_def)

lemma marks_of_append [simp]: "marks_of (xs @ ys) = marks_of xs @ marks_of ys"
  by (simp add: marks_of_def)

lemma texts_of_simps [simp]:
  "texts_of [] = []" "texts_of (e # es) = event_text e @ texts_of es"
  by (simp_all add: texts_of_def)

lemma marks_of_simps [simp]:
  "marks_of [] = []" "marks_of (e # es) = event_mark e @ marks_of es"
  by (simp_all add: marks_of_def)

lemma read_clock_simps [simp]:
  "fst (read_clock env st) = time_time env (n_clock st)"
  "events (snd (read_clock env st)) = events st"
  "n_sent (snd (read_clock env st)) = n_sent st"
  "n_clock (snd (read_clock env st)) = Suc (n_clock st)"
  by (simp_all add: read_clock_def)

lemma send_simps [simp]:
  "fst (send env req st) = reply env (n_sent st)"
  "events (snd (send env req st)) = events st @ [Sent req]"
  "n_sent (snd (send env req st)) = Suc (n_sent st)"
  "n_clock (snd (send env req st)) = n_clock st"
  by (simp_all add: send_def)

lemma print_simps [simp]:
  "events (print line st) = events st @ [Printed line]"
  "n_sent (print line st) = n_sent st"
  "n_clock (print line st) = n_clock st"
  by (simp_all add: print_def)

lemma sleep_simps [simp]:
  "events (sleep d st) = events st @ [Slept d]"
  "n_sent (sleep d st) = n_sent st"
  "n_clock (sleep d st) = n_clock st"
  by (simp_all add: sleep_def)

lemma timed_call_shape:
  assumes "timed_call env tag q i req lats fr st = (Inr (lats', fr'), st')"
  shows "lats' = lats @ [elapsed_ms env (n_clock st)]
       \<and> n_clock st' = n_clock st + 2 \<and> n_sent st' = Suc (n_sent st)
       \<and> texts_of (events st') = texts_of (events st) @ [query_text req]
       \<and> marks_of (events st') = marks_of (events st)"
  using assms
  by (auto simp: timed_call_def case_prod_beta elapsed_ms_def
      split: http_outcome.splits if_splits option.splits)

lemma timed_call_progress:
  assumes "answered env (n_sent st) i"
  shows "\<exists>r st'. timed_call env tag q i req lats fr st = (Inr r, st')"
  using assms
  by (auto simp: timed_call_def case_prod_beta answered_def
      split: http_outcome.splits if_splits option.splits)

lemma timed_call_failed:
  assumes "reply env (n_sent st) = Request_failed"
  shows "fst (timed_call env tag q i req lats fr st) = Inl RequestException"
  using assms by (simp add: timed_call_def case_prod_beta)


lemma prom_request_shape:
  assumes "prom_request env q st = (Inr req, st')"
  shows "query_text req = q_promql q \<and> events st' = events st
       \<and> n_sent st' = n_sent st \<and> n_clock st' = Suc (n_clock st)"
  using assms
  by (auto simp: prom_request_def case_prod_beta Let_def read_clock_def
      split: option.splits sum.splits)

lemma prom_request_progress:
  assumes "durations_ok q"
  shows "\<exists>req st'. prom_request env q st = (Inr req, st')"
  using assms
  by (auto simp: prom_request_def durations_ok_def case_prod_beta Let_def
      split: option.splits sum.splits)

lemma map_upt_shift:
  "map f [0 ..< Suc n] = f 0 # map (\<lambda>k. f (Suc k)) [0 ..< n]"
proof -
  have "[0 ..< Suc n] = 0 # map Suc [0 ..< n]"
    by (simp add: upt_conv_Cons map_Suc_upt del: upt_Suc)
  then show ?thesis
    by (simp add: comp_def del: upt_Suc)
qed

lemma prom_runs_shape:
  assumes "prom_runs env q idx lats fr st = (Inr (lats', fr'), st')"
  shows "lats' = lats @ map (\<lambda>k. elapsed_ms env (n_clock st + 3 * k + 1)) [0 ..< length idx]
       \<and> n_clock st' = n_clock st + 3 * length idx
       \<and> n_sent st' = n_sent st + length idx
       \<and> texts_of (events st') = texts_of (events st) @ replicate (length idx) (q_promql q)
       \<and> marks_of (events st') = marks_of (events st)"
  using assms
proof (induction idx arbitrary: lats fr st)
  case Nil
  then show ?case by simp
next
  case (Cons i rest)
  from Cons.prems obtain req st1 where
    req: "prom_request env q st = (Inr req, st1)"
    by (auto split: prod.splits sum.splits)
  from Cons.prems req obtain lats1 fr1 st2 where
    call: "timed_call env ''Prom'' q i req lats fr st1 = (Inr (lats1, fr1), st2)"
    and rest: "prom_runs env q rest lats1 fr1 st2 = (Inr (lats', fr'), st')"
    by (auto split: prod.splits sum.splits)
  note a = prom_request_shape [OF req]
  note b = timed_call_shape [OF call]
  note c = Cons.IH [OF rest]
  have shift: "map (\<lambda>k. elapsed_ms env (n_clock st + 3 * k + 1)) [0 ..< length (i # rest)]
        = elapsed_ms env (n_clock st + 1)
          # map (\<lambda>k. elapsed_ms env (n_clock st2 + 3 * k + 1)) [0 ..< length rest]"
    using a b by (simp add: map_upt_shift eval_nat_numeral del: upt_Suc)
  show ?case
    unfolding shift using a b c by (simp add: replicate_app_Cons_same)
qed

lemma prom_runs_progress:
  assumes "durations_ok q"
    and "\<forall>k < length idx. answered env (n_sent st + k) (idx ! k)"
  shows "\<exists>r st'. prom_runs env q idx lats fr st = (Inr r, st')"
  using assms(2)
proof (induction idx arbitrary: lats fr st)
  case Nil
  then show ?case by simp
next
  case (Cons i rest)
  obtain req st1 where req: "prom_request env q st = (Inr req, st1)"
    using prom_request_progress [OF assms(1)] by blast
  note a = prom_request_shape [OF req]
  from Cons.prems have "answered env (n_sent st1) i"
    using a by force
  then obtain r st2 where call: "timed_call env ''Prom'' q i req lats fr st1 = (Inr r, st2)"
    using timed_call_progress by blast
  obtain lats1 fr1 where r: "r = (lats1, fr1)"
    by (cases r)
  note b = timed_call_shape [OF call [unfolded r]]
  have "\<forall>k < length rest. answered env (n_sent st2 + k) (rest ! k)"
  proof (intro allI impI)
    fix k assume "k < length rest"
    then have "answered env (n_sent st + Suc k) ((i # rest) ! Suc k)"
      using Cons.prems by (metis Suc_less_eq length_Cons)
    then show "answered env (n_sent st2 + k) (rest ! k)"
      using a b by simp
  qed
  from Cons.IH [OF this, of lats1 fr1] show ?case
    by (simp add: req call r)
qed

lemma esql_runs_shape:
  assumes "esql_runs env q idx lats fr st = (Inr (lats', fr'), st')"
  shows "lats' = lats @ map (\<lambda>k. elapsed_ms env (n_clock st + 2 * k)) [0 ..< length idx]
       \<and> n_clock st' = n_clock st + 2 * length idx
       \<and> n_sent st' = n_sent st + length idx
       \<and> texts_of (events st') = texts_of (events st) @ replicate (length idx) (q_esql q)
       \<and> marks_of (events st') = marks_of (events st)"
  using assms
proof (induction idx arbitrary: lats fr st)
  case Nil
  then show ?case by simp
next
  case (Cons i rest)
  from Cons.prems obtain lats1 fr1 st2 where
    call: "timed_call env ''ES|QL'' q i
             (Post_esql (q_esql q) (if q_range_duration q \<noteq> None then 120 else 15))
             lats fr st = (Inr (lats1, fr1), st2)"
    and rest: "esql_runs env q rest lats1 fr1 st2 = (Inr (lats', fr'), st')"
    by (auto simp: Let_def split: prod.splits sum.splits)
  note b = timed_call_shape [OF call]
  note c = Cons.IH [OF rest]
  have shift: "map (\<lambda>k. elapsed_ms env (n_clock st + 2 * k)) [0 ..< length (i # rest)]
        = elapsed_ms env (n_clock st)
          # map (\<lambda>k. elapsed_ms env (n_clock st2 + 2 * k)) [0 ..< length rest]"
    using b by (simp add: map_upt_shift eval_nat_numeral del: upt_Suc)
  show ?case
    unfolding shift using b c by (simp add: replicate_app_Cons_same)
qed

lemma esql_runs_progress:
  assumes "\<forall>k < length idx. answered env (n_sent st + k) (idx ! k)"
  shows "\<exists>r st'. esql_runs env q idx lats fr st = (Inr r, st')"
  using assms
proof (induction idx arbitrary: lats fr st)
  case Nil
  then show ?case by simp
next
  case (Cons i rest)
  from Cons.prems have "answered env (n_sent st) i"
    by force
  then obtain r st2 where call: "timed_call env ''ES|QL'' q i
             (Post_esql (q_esql q) (if q_range_duration q \<noteq> None then 120 else 15))
             lats fr st = (Inr r, st2)"
    using timed_call_progress by blast
  obtain lats1 fr1 where r: "r = (lats1, fr1)"
    by (cases r)
  note b = timed_call_shape [OF call [unfolded r]]
  have "\<forall>k < length rest. answered env (n_sent st2 + k) (rest ! k)"
  proof (intro allI impI)
    fix k assume "k < length rest"
    then have "answered env (n_sent st + Suc k) ((i # rest) ! Suc k)"
      using Cons.prems by (metis Suc_less_eq length_Cons)
    then show "answered env (n_sent st2 + k) (rest ! k)"
      using b by simp
  qed
  from Cons.IH [OF this, of lats1 fr1] show ?case
    unfolding esql_runs.simps Let_def call r by simp
qed

lemma length_range_runs: "length (py_range NUM_RUNS) = 5"
  by (simp add: py_range_def NUM_RUNS_def)

lemma bench_prom_shape:
  assumes "bench_prom env q st = (Inr (lats, fr), st')"
  shows "lats = map (\<lambda>k. elapsed_ms env (n_clock st + 3 * k + 1)) [0 ..< 5]
       \<and> n_clock st' = n_clock st + 15 \<and> n_sent st' = n_sent st + 5
       \<and> texts_of (events st') = texts_of (events st) @ replicate 5 (q_promql q)
       \<and> marks_of (events st') = marks_of (events st)"
  using prom_runs_shape [OF assms [unfolded bench_prom_def]]
  unfolding length_range_runs by simp

lemma bench_esql_shape:
  assumes "bench_esql env q st = (Inr (lats, fr), st')"
  shows "lats = map (\<lambda>k. elapsed_ms env (n_clock st + 2 * k)) [0 ..< 5]
       \<and> n_clock st' = n_clock st + 10 \<and> n_sent st' = n_sent st + 5
       \<and> texts_of (events st') = texts_of (events st) @ replicate 5 (q_esql q)
       \<and> marks_of (events st') = marks_of (events st)"
  using esql_runs_shape [OF assms [unfolded bench_esql_def]]
  unfolding length_range_runs by simp

lemma bench_prom_progress:
  assumes "durations_ok q" and "\<forall>k < 5. answered env (n_sent st + k) k"
  shows "\<exists>r st'. bench_prom env q st = (Inr r, st')"
proof -
  have "\<forall>k < length (py_range NUM_RUNS). answered env (n_sent st + k) (py_range NUM_RUNS ! k)"
    using assms(2) by (simp add: py_range_def NUM_RUNS_def)
  from prom_runs_progress [OF assms(1) this] show ?thesis
    by (simp add: bench_prom_def)
qed

lemma bench_esql_progress:
  assumes "\<forall>k < 5. answered env (n_sent st + k) k"
  shows "\<exists>r st'. bench_esql env q st = (Inr r, st')"
proof -
  have "\<forall>k < length (py_range NUM_RUNS). answered env (n_sent st + k) (py_range NUM_RUNS ! k)"
    using assms by (simp add: py_range_def NUM_RUNS_def)
  from esql_runs_progress [OF this] show ?thesis
    by (simp add: bench_esql_def)
qed

lemma print_results_shape:
  assumes "print_results env a b st = (None, st')"
  shows "texts_of (events st') = texts_of (events st)
       \<and> marks_of (events st') = marks_of (events st)
       \<and> n_sent st' = n_sent st \<and> n_clock st' = n_clock st"
  using assms by (auto simp: print_results_def Let_def split: sum.splits)

lemma summarize_line:
  assumes "summarize name lats = Inr line"
  shows "\<exists>p50 p95. line = Print_summary name p50 p95"
  using assms by (auto simp: summarize_def Let_def split: sum.splits)

lemma run_query_skipped:
  assumes "skipped q"
  shows "run_query env q st
         = (None, st\<lparr>events := events st @ [Printed (Print_header (q_name q)),
                                             Printed Print_skipping]\<rparr>)"
  using assms by (simp add: run_query_def print_def)

lemma run_query_shape:
  assumes "run_query env q st = (None, st')"
  shows "texts_of (events st') = texts_of (events st) @ expected_texts q
       \<and> marks_of (events st') = marks_of (events st) @ expected_marks q
       \<and> n_sent st' = n_sent st + length (expected_texts q)"
proof (cases "skipped q")
  case True
  with assms show ?thesis
    by (auto simp: run_query_skipped expected_texts_def expected_marks_def)
next
  case False
  define st0 where "st0 = print (Print_header (q_name q)) st"
  from assms False obtain prom_lats prom_result st1 where
    prom: "bench_prom env q st0 = (Inr (prom_lats, prom_result), st1)"
    by (auto simp: run_query_def st0_def split: prod.splits sum.splits)
  from assms False prom obtain es_lats es_result st2 where
    es: "bench_esql env q st1 = (Inr (es_lats, es_result), st2)"
    by (auto simp: run_query_def st0_def split: prod.splits sum.splits)
  define st3 where
    "st3 = snd (if PRINT_RESULTS env then print_results env prom_result es_result st2
                else (None, st2))"
  from assms False prom es have
    pr: "(if PRINT_RESULTS env then print_results env prom_result es_result st2
          else (None, st2)) = (None, st3)"
    by (auto simp: run_query_def st0_def st3_def split: prod.splits sum.splits option.splits if_splits)
  from assms False prom es pr obtain prom_line es_line where
    s1: "summarize ''Prometheus'' prom_lats = Inr prom_line"
    and s2: "summarize ''Elasticsearch ES|QL'' es_lats = Inr es_line"
    and fin: "st' = print es_line (print prom_line st3)"
    by (auto simp: run_query_def st0_def [symmetric] split: sum.splits)
  obtain a b c d where lines: "prom_line = Print_summary ''Prometheus'' a b"
    "es_line = Print_summary ''Elasticsearch ES|QL'' c d"
    using summarize_line [OF s1] summarize_line [OF s2] by blast
  have keep: "texts_of (events st3) = texts_of (events st2)"
    "marks_of (events st3) = marks_of (events st2)" "n_sent st3 = n_sent st2"
    using pr print_results_shape [of env prom_result es_result st2 st3]
    by (auto split: if_splits)
  note p = bench_prom_shape [OF prom]
  note e = bench_esql_shape [OF es]
  show ?thesis
    using False p e keep
    by (simp add: fin lines st0_def expected_texts_def expected_marks_def NUM_RUNS_def)
qed

lemma run_queries_shape:
  assumes "run_queries env qs st = (None, st')"
  shows "texts_of (events st') = texts_of (events st) @ concat (map expected_texts qs)
       \<and> marks_of (events st') = marks_of (events st) @ concat (map expected_marks qs)
       \<and> n_sent st' = n_sent st + length (concat (map expected_texts qs))"
  using assms
proof (induction qs arbitrary: st)
  case Nil
  then show ?case by simp
next
  case (Cons q qs)
  from Cons.prems obtain st1 where
    one: "run_query env q st = (None, st1)" and rest: "run_queries env qs st1 = (None, st')"
    by (auto split: prod.splits option.splits)
  from run_query_shape [OF one] Cons.IH [OF rest] show ?case
    by simp
qed

lemma answered_any: "answered env n 0 \<Longrightarrow> answered env n i"
  by (auto simp: answered_def split: http_outcome.splits)

lemma print_results_progress:
  assumes "\<forall>r. \<not> isl (format_prom_result env r) \<and> \<not> isl (format_es_result env r)"
  shows "\<exists>st'. print_results env a b st = (None, st')"
proof -
  from assms obtain x y where "format_prom_result env a = Inr x" "format_es_result env b = Inr y"
    by (metis isl_def sum.exhaust)
  then show ?thesis
    by (simp add: print_results_def Let_def)
qed

lemma run_query_progress:
  assumes "\<forall>n. answered env n 0" and "printing_ok env" and "skipped q \<or> durations_ok q"
  shows "\<exists>st'. run_query env q st = (None, st')"
proof (cases "skipped q")
  case True
  then show ?thesis
    by (simp add: run_query_skipped)
next
  case False
  with assms(3) have dur: "durations_ok q" by simp
  have ans: "\<forall>k < 5. answered env (n_sent s + k) k" for s
    using assms(1) answered_any by blast
  define st0 where "st0 = print (Print_header (q_name q)) st"
  obtain r1 st1 where "bench_prom env q st0 = (Inr r1, st1)"
    using bench_prom_progress [OF dur ans] by blast
  then obtain prom_lats prom_result where
    prom: "bench_prom env q st0 = (Inr (prom_lats, prom_result), st1)"
    by (cases r1) simp
  obtain r2 st2 where "bench_esql env q st1 = (Inr r2, st2)"
    using bench_esql_progress [OF ans] by blast
  then obtain es_lats es_result where
    es: "bench_esql env q st1 = (Inr (es_lats, es_result), st2)"
    by (cases r2) simp
  have "\<exists>st3. (if PRINT_RESULTS env then print_results env prom_result es_result st2
          else (None, st2)) = (None, st3)"
  proof (cases "PRINT_RESULTS env")
    case True
    with assms(2) have "\<forall>r. \<not> isl (format_prom_result env r) \<and> \<not> isl (format_es_result env r)"
      by (simp add: printing_ok_def)
    from print_results_progress [OF this, of prom_result es_result st2] True show ?thesis
      by simp
  next
    case False
    then show ?thesis by simp
  qed
  then obtain st3 where
    pr: "(if PRINT_RESULTS env then print_results env prom_result es_result st2
          else (None, st2)) = (None, st3)"
    by blast
  have "prom_lats \<noteq> []" "es_lats \<noteq> []"
    using bench_prom_shape [OF prom] bench_esql_shape [OF es] by (simp_all add: upt_rec)
  then obtain l1 l2 where
    s1: "summarize ''Prometheus'' prom_lats = Inr l1"
    and s2: "summarize ''Elasticsearch ES|QL'' es_lats = Inr l2"
    using summarize_run by blast
  show ?thesis
    using False by (simp add: run_query_def st0_def [symmetric] prom es pr s1 s2)
qed

lemma run_queries_progress:
  assumes "\<forall>n. answered env n 0" and "printing_ok env"
    and "\<forall>q \<in> set qs. skipped q \<or> durations_ok q"
  shows "\<exists>st'. run_queries env qs st = (None, st')"
  using assms(3)
proof (induction qs arbitrary: st)
  case Nil
  then show ?case by simp
next
  case (Cons q qs)
  then have "skipped q \<or> durations_ok q" by simp
  from run_query_progress [OF assms(1,2) this] obtain st1 where
    one: "run_query env q st = (None, st1)" by blast
  from Cons have "\<exists>st'. run_queries env qs st1 = (None, st')" by simp
  then show ?case
    by (simp add: one)
qed


lemma length_expected_texts:
  "length (concat (map expected_texts qs))
     = 2 * nat NUM_RUNS * length (filter (\<lambda>q. \<not> skipped q) qs)"
  by (induction qs) (simp_all add: expected_texts_def)

lemma catalogue_fields:
  "q_skip Q1 = None" "q_range_duration Q1 = None" "q_step Q1 = None"
  "q_skip Q2 = Some False" "q_range_duration Q2 = Some ''1h''" "q_step Q2 = Some ''5m''"
  "q_skip Q3 = Some False" "q_range_duration Q3 = Some ''1h''" "q_step Q3 = Some ''5m''"
  "q_skip Q4 = Some True" "q_range_duration Q4 = Some ''4h''" "q_step Q4 = Some ''5m''"
  by (simp_all add: Q1_def Q2_def Q3_def Q4_def)

lemma catalogue_skipped: "\<not> skipped Q1" "\<not> skipped Q2" "\<not> skipped Q3" "skipped Q4"
  by (simp_all add: skipped_def catalogue_fields)

lemma catalogue_durations:
  "parse_duration ''1h'' = Inr 3600" "parse_duration ''5m'' = Inr 300"
  "parse_duration ''4h'' = Inr 14400"
proof -
  have d: "list_all decimal_digit ''1''" "list_all decimal_digit ''5''" "list_all decimal_digit ''4''"
    and u: "\<not> str_isdigit CHR ''h''" "\<not> str_isdigit CHR ''m''"
    by (simp_all add: decimal_digit_def str_isdigit_def)
  have g: "units_get (str_lower CHR ''h'') 1 = 3600" "units_get (str_lower CHR ''m'') 1 = 60"
    by (simp_all add: units_get_def units_def str_lower_def)
  show "parse_duration ''1h'' = Inr 3600"
    using parse_duration_unit [OF _ d(1) u(1)] g by (simp add: digit_value_def)
  show "parse_duration ''5m'' = Inr 300"
    using parse_duration_unit [OF _ d(2) u(2)] g by (simp add: digit_value_def)
  show "parse_duration ''4h'' = Inr 14400"
    using parse_duration_unit [OF _ d(3) u(1)] g by (simp add: digit_value_def)
qed

lemma catalogue_durations_ok: "\<forall>q \<in> set QUERIES. skipped q \<or> durations_ok q"
  by (simp add: QUERIES_def durations_ok_def catalogue_fields catalogue_durations)

lemma all_500_answered: "answered env_all_500 n i" "error_response env_all_500 n"
  by (simp_all add: answered_def error_response_def env_all_500_def)

lemma all_500_completes: "fst (main env_all_500) = None"
proof -
  have "printing_ok env_all_500"
    by (simp add: printing_ok_def env_all_500_def)
  from run_queries_progress [OF _ this catalogue_durations_ok, of initial_state]
  show ?thesis
    by (auto simp: main_def all_500_answered)
qed

lemma range_runs: "py_range NUM_RUNS = [0, 1, 2, 3, 4]"
  by (simp add: py_range_def NUM_RUNS_def upt_rec)

section \<open>Facts about error responses\<close>

lemma errors_of_append [simp]: "errors_of (xs @ ys) = errors_of xs @ errors_of ys"
  by (simp add: errors_of_def)

lemma errors_of_simps [simp]:
  "errors_of [] = []" "errors_of (e # es) = event_error e @ errors_of es"
  by (simp_all add: errors_of_def)















section \<open>Facts about runs that an exception ends\<close>

lemma prefix_replicate:
  assumes "m \<le> n"
  shows "prefix (replicate m a) (replicate n a @ ys)"
proof -
  have "replicate n a = replicate m a @ replicate (n - m) a"
    using assms by (simp add: replicate_add [symmetric])
  then show ?thesis
    by (simp add: prefix_def)
qed

lemma prefix_replicate_same:
  assumes "m \<le> n"
  shows "prefix (replicate m a) (replicate n a)"
  using prefix_replicate [OF assms, of a "[]"] by simp

lemma timed_call_trace:
  "texts_of (events (snd (timed_call env tag q i req lats fr st)))
     = texts_of (events st) @ [query_text req]
   \<and> marks_of (events (snd (timed_call env tag q i req lats fr st))) = marks_of (events st)"
  by (auto simp: timed_call_def case_prod_beta split: http_outcome.splits option.splits)

lemma prom_request_trace: "events (snd (prom_request env q st)) = events st"
  by (auto simp: prom_request_def case_prod_beta Let_def read_clock_def
      split: option.splits sum.splits)

lemma prom_runs_trace:
  "\<exists>m \<le> length idx.
     texts_of (events (snd (prom_runs env q idx lats fr st)))
       = texts_of (events st) @ replicate m (q_promql q)
   \<and> marks_of (events (snd (prom_runs env q idx lats fr st))) = marks_of (events st)"
proof (induction idx arbitrary: lats fr st)
  case Nil
  then show ?case by simp
next
  case (Cons i rest)
  obtain r st1 where req: "prom_request env q st = (r, st1)"
    by (cases "prom_request env q st")
  have ev: "events st1 = events st"
    using prom_request_trace [of env q st] req by simp
  show ?case
  proof (cases r)
    case (Inl e)
    then have "prom_runs env q (i # rest) lats fr st = (Inl e, st1)"
      by (simp add: req)
    then show ?thesis
      using ev by (intro exI [of _ 0]) simp
  next
    case (Inr request)
    note a = prom_request_shape [OF req [unfolded Inr]]
    obtain r2 st2 where call: "timed_call env ''Prom'' q i request lats fr st1 = (r2, st2)"
      by (cases "timed_call env ''Prom'' q i request lats fr st1")
    have t: "texts_of (events st2) = texts_of (events st) @ [q_promql q]"
      "marks_of (events st2) = marks_of (events st)"
      using timed_call_trace [of env "''Prom''" q i request lats fr st1] call a ev by simp_all
    show ?thesis
    proof (cases r2)
      case (Inl e)
      then have "prom_runs env q (i # rest) lats fr st = (Inl e, st2)"
        by (simp add: req Inr call)
      then show ?thesis
        using t by (intro exI [of _ 1]) simp
    next
      case r2: (Inr p)
      obtain lats1 fr1 where p: "p = (lats1, fr1)"
        by (cases p)
      have step: "prom_runs env q (i # rest) lats fr st = prom_runs env q rest lats1 fr1 st2"
        by (simp add: req Inr call r2 p)
      from Cons.IH [of lats1 fr1 st2] obtain m where
        m: "m \<le> length rest"
        "texts_of (events (snd (prom_runs env q rest lats1 fr1 st2)))
           = texts_of (events st2) @ replicate m (q_promql q)"
        "marks_of (events (snd (prom_runs env q rest lats1 fr1 st2))) = marks_of (events st2)"
        by blast
      show ?thesis
        unfolding step using m t
        by (intro exI [of _ "Suc m"]) (simp add: replicate_app_Cons_same)
    qed
  qed
qed

lemma esql_runs_trace:
  "\<exists>m \<le> length idx.
     texts_of (events (snd (esql_runs env q idx lats fr st)))
       = texts_of (events st) @ replicate m (q_esql q)
   \<and> marks_of (events (snd (esql_runs env q idx lats fr st))) = marks_of (events st)"
proof (induction idx arbitrary: lats fr st)
  case Nil
  then show ?case by simp
next
  case (Cons i rest)
  define request where
    "request = Post_esql (q_esql q) (if q_range_duration q \<noteq> None then 120 else 15)"
  obtain r2 st2 where call: "timed_call env ''ES|QL'' q i request lats fr st = (r2, st2)"
    by (cases "timed_call env ''ES|QL'' q i request lats fr st")
  have t: "texts_of (events st2) = texts_of (events st) @ [q_esql q]"
    "marks_of (events st2) = marks_of (events st)"
    using timed_call_trace [of env "''ES|QL''" q i request lats fr st] call
    by (simp_all add: request_def)
  show ?case
  proof (cases r2)
    case (Inl e)
    then have "esql_runs env q (i # rest) lats fr st = (Inl e, st2)"
      using call by (simp add: request_def Let_def)
    then show ?thesis
      using t by (intro exI [of _ 1]) simp
  next
    case r2: (Inr p)
    obtain lats1 fr1 where p: "p = (lats1, fr1)"
      by (cases p)
    have step: "esql_runs env q (i # rest) lats fr st = esql_runs env q rest lats1 fr1 st2"
      using call by (simp add: request_def Let_def r2 p)
    from Cons.IH [of lats1 fr1 st2] obtain m where
      m: "m \<le> length rest"
      "texts_of (events (snd (esql_runs env q rest lats1 fr1 st2)))
         = texts_of (events st2) @ replicate m (q_esql q)"
      "marks_of (events (snd (esql_runs env q rest lats1 fr1 st2))) = marks_of (events st2)"
      by blast
    show ?thesis
      unfolding step using m t
      by (intro exI [of _ "Suc m"]) (simp add: replicate_app_Cons_same)
  qed
qed

lemma print_results_trace:
  "texts_of (events (snd (print_results env a b st))) = texts_of (events st)
   \<and> marks_of (events (snd (print_results env a b st))) = marks_of (events st)"
  by (auto simp: print_results_def Let_def split: sum.splits)

lemma run_query_prefix:
  "prefix (texts_of (events (snd (run_query env q st)))) (texts_of (events st) @ expected_texts q)
   \<and> prefix (marks_of (events (snd (run_query env q st)))) (marks_of (events st) @ expected_marks q)"
proof (cases "skipped q")
  case True
  then show ?thesis
    by (simp add: run_query_skipped expected_texts_def expected_marks_def)
next
  case False
  define st0 where "st0 = print (Print_header (q_name q)) st"
  have et: "expected_texts q = replicate 5 (q_promql q) @ replicate 5 (q_esql q)"
    and em: "expected_marks q
             = [Header (q_name q), Summary ''Prometheus'', Summary ''Elasticsearch ES|QL'']"
    using False by (simp_all add: expected_texts_def expected_marks_def NUM_RUNS_def)
  have t0: "texts_of (events st0) = texts_of (events st)"
    "marks_of (events st0) = marks_of (events st) @ [Header (q_name q)]"
    by (simp_all add: st0_def)
  obtain r1 st1 where prom: "bench_prom env q st0 = (r1, st1)"
    by (cases "bench_prom env q st0")
  show ?thesis
  proof (cases r1)
    case (Inl e)
    then have rq: "run_query env q st = (Some e, st1)"
      using False prom by (simp add: run_query_def st0_def)
    obtain m where m: "m \<le> 5"
      "texts_of (events st1) = texts_of (events st0) @ replicate m (q_promql q)"
      "marks_of (events st1) = marks_of (events st0)"
      using prom_runs_trace [of "py_range NUM_RUNS" env q "[]" None st0] prom
      by (auto simp: bench_prom_def length_range_runs)
    show ?thesis
      using m t0 by (simp add: rq et em prefix_replicate)
  next
    case (Inr p)
    obtain prom_lats prom_result where p: "p = (prom_lats, prom_result)"
      by (cases p)
    note prom' = prom [unfolded Inr p]
    note ps = bench_prom_shape [OF prom']
    obtain r2 st2 where es: "bench_esql env q st1 = (r2, st2)"
      by (cases "bench_esql env q st1")
    show ?thesis
    proof (cases r2)
      case (Inl e)
      then have rq: "run_query env q st = (Some e, st2)"
        using False prom' es by (simp add: run_query_def st0_def)
      obtain m where m: "m \<le> 5"
        "texts_of (events st2) = texts_of (events st1) @ replicate m (q_esql q)"
        "marks_of (events st2) = marks_of (events st1)"
        using esql_runs_trace [of "py_range NUM_RUNS" env q "[]" None st1] es
        by (auto simp: bench_esql_def length_range_runs)
      show ?thesis
        using m t0 ps by (simp add: rq et em prefix_replicate_same)
    next
      case r2: (Inr p2)
      obtain es_lats es_result where p2: "p2 = (es_lats, es_result)"
        by (cases p2)
      note es' = es [unfolded r2 p2]
      note ess = bench_esql_shape [OF es']
      define pr where
        "pr = (if PRINT_RESULTS env then print_results env prom_result es_result st2
               else (None, st2))"
      have keep: "texts_of (events (snd pr)) = texts_of (events st2)"
        "marks_of (events (snd pr)) = marks_of (events st2)"
        using print_results_trace [of env prom_result es_result st2]
        by (simp_all add: pr_def)
      have full: "texts_of (events (snd pr)) = texts_of (events st) @ expected_texts q"
        "marks_of (events (snd pr)) = marks_of (events st) @ [Header (q_name q)]"
        using keep ps ess t0 by (simp_all add: et)
      have rq: "run_query env q st =
           (case pr of
              (Some e, st3) \<Rightarrow> (Some e, st3)
            | (None, st3) \<Rightarrow>
                (case summarize ''Prometheus'' prom_lats of
                   Inl e \<Rightarrow> (Some e, st3)
                 | Inr prom_line \<Rightarrow>
                     (case summarize ''Elasticsearch ES|QL'' es_lats of
                        Inl e \<Rightarrow> (Some e, print prom_line st3)
                      | Inr es_line \<Rightarrow> (None, print es_line (print prom_line st3)))))"
        using False prom' es' by (simp add: run_query_def st0_def [symmetric] pr_def)
      show ?thesis
      proof (cases "fst (run_query env q st)")
        case None
        then have "run_query env q st = (None, snd (run_query env q st))"
          by (metis prod.collapse)
        from run_query_shape [OF this] show ?thesis
          by simp
      next
        case (Some e)
        obtain o3 st3 where pr3: "pr = (o3, st3)"
          by (cases pr)
        have st3: "texts_of (events st3) = texts_of (events st) @ expected_texts q"
          "marks_of (events st3) = marks_of (events st) @ [Header (q_name q)]"
          using full by (simp_all add: pr3)
        show ?thesis
        proof (cases o3)
          case (Some e')
          then show ?thesis
            using st3 by (simp add: rq pr3 em)
        next
          case None
          show ?thesis
          proof (cases "summarize ''Prometheus'' prom_lats")
            case (Inl e')
            then show ?thesis
              using st3 None by (simp add: rq pr3 em)
          next
            case (Inr prom_line)
            obtain a b where l: "prom_line = Print_summary ''Prometheus'' a b"
              using summarize_line [OF Inr] by blast
            show ?thesis
            proof (cases "summarize ''Elasticsearch ES|QL'' es_lats")
              case (Inl e')
              then show ?thesis
                using st3 None Inr by (simp add: rq pr3 em l)
            next
              case es_line: (Inr es_line)
              with Some None Inr show ?thesis
                by (simp add: rq pr3)
            qed
          qed
        qed
      qed
    qed
  qed
qed

lemma run_queries_prefix:
  "prefix (texts_of (events (snd (run_queries env qs st))))
     (texts_of (events st) @ concat (map expected_texts qs))
   \<and> prefix (marks_of (events (snd (run_queries env qs st))))
       (marks_of (events st) @ concat (map expected_marks qs))"
proof (induction qs arbitrary: st)
  case Nil
  then show ?case by simp
next
  case (Cons q qs)
  obtain r st1 where one: "run_query env q st = (r, st1)"
    by (cases "run_query env q st")
  show ?case
  proof (cases r)
    case (Some e)
    then have rq: "run_queries env (q # qs) st = (Some e, st1)"
      by (simp add: one)
    from run_query_prefix [of env q st] one have
      "prefix (texts_of (events st1)) (texts_of (events st) @ expected_texts q)"
      "prefix (marks_of (events st1)) (marks_of (events st) @ expected_marks q)"
      by simp_all
    then have
      "prefix (texts_of (events st1))
         ((texts_of (events st) @ expected_texts q) @ concat (map expected_texts qs))"
      "prefix (marks_of (events st1))
         ((marks_of (events st) @ expected_marks q) @ concat (map expected_marks qs))"
      using prefix_prefix by blast+
    then show ?thesis
      unfolding rq by simp
  next
    case None
    then have rq: "run_queries env (q # qs) st = run_queries env qs st1"
      by (simp add: one)
    note s = run_query_shape [OF one [unfolded None]]
    from Cons.IH [of st1] show ?thesis
      unfolding rq using s by simp
  qed
qed

lemma bench_esql_failed:
  assumes "reply env (n_sent st) = Request_failed"
  shows "fst (bench_esql env q st) = Inl RequestException
       \<and> texts_of (events (snd (bench_esql env q st))) = texts_of (events st) @ [q_esql q]
       \<and> marks_of (events (snd (bench_esql env q st))) = marks_of (events st)"
  using assms
  by (simp add: bench_esql_def range_runs timed_call_def read_clock_def send_def
      case_prod_beta Let_def)

section \<open>Claims about \<open>parse_duration\<close>\<close>

text \<open>
  C5. A duration string \<open><int><unit>\<close>, where \<open><int>\<close> is a non-empty string
  of decimal digits and the unit is one of s, m, h, d, parses to the number of seconds:
  the integer times 1, 60, 3600 or 86400. A string of digits alone is read as seconds.
  In particular "5m" is 300, "1h" is 3600 and "90" is 90.
\<close>

theorem parse_duration_int_unit:
  assumes "ds \<noteq> []" and "list_all decimal_digit ds"
  shows "parse_duration (ds @ ''s'') = Inr (int (decimal ds))
       \<and> parse_duration (ds @ ''m'') = Inr (int (decimal ds) * 60)
       \<and> parse_duration (ds @ ''h'') = Inr (int (decimal ds) * 3600)
       \<and> parse_duration (ds @ ''d'') = Inr (int (decimal ds) * 86400)
       \<and> parse_duration ds = Inr (int (decimal ds))
       \<and> parse_duration ''5m'' = Inr 300
       \<and> parse_duration ''1h'' = Inr 3600
       \<and> parse_duration ''90'' = Inr 90"
proof -
  have five: "list_all decimal_digit ''5''" and one: "list_all decimal_digit ''1''"
    and ninety: "list_all decimal_digit ''90''"
    by (simp_all add: decimal_digit_def)
  have u: "\<not> str_isdigit CHR ''s''" "\<not> str_isdigit CHR ''m''"
    "\<not> str_isdigit CHR ''h''" "\<not> str_isdigit CHR ''d''"
    by (simp_all add: decimal_digit_def str_isdigit_def)
  have g: "units_get (str_lower CHR ''s'') 1 = 1" "units_get (str_lower CHR ''m'') 1 = 60"
    "units_get (str_lower CHR ''h'') 1 = 3600" "units_get (str_lower CHR ''d'') 1 = 86400"
    by (simp_all add: units_get_def units_def str_lower_def)
  have "parse_duration (ds @ ''s'') = Inr (int (decimal ds))"
    using parse_duration_unit [OF assms u(1)] g(1) by simp
  moreover have "parse_duration (ds @ ''m'') = Inr (int (decimal ds) * 60)"
    using parse_duration_unit [OF assms u(2)] g(2) by simp
  moreover have "parse_duration (ds @ ''h'') = Inr (int (decimal ds) * 3600)"
    using parse_duration_unit [OF assms u(3)] g(3) by simp
  moreover have "parse_duration (ds @ ''d'') = Inr (int (decimal ds) * 86400)"
    using parse_duration_unit [OF assms u(4)] g(4) by simp
  moreover have "parse_duration ds = Inr (int (decimal ds))"
    by (rule parse_duration_numeric [OF assms])
  moreover have "parse_duration ''5m'' = Inr 300"
    using parse_duration_unit [OF _ five u(2)] g(2) by (simp add: digit_value_def)
  moreover have "parse_duration ''1h'' = Inr 3600"
    using parse_duration_unit [OF _ one u(3)] g(3) by (simp add: digit_value_def)
  moreover have "parse_duration ''90'' = Inr 90"
    using parse_duration_numeric [OF _ ninety] by (simp add: digit_value_def)
  ultimately show ?thesis
    by simp
qed

theorem parse_duration_int_unit_witness:
  "parse_duration ''15s'' = Inr 15 \<and> parse_duration ''15m'' = Inr 900
   \<and> parse_duration ''15h'' = Inr 54000 \<and> parse_duration ''15d'' = Inr 1296000
   \<and> parse_duration ''15'' = Inr 15"
proof -
  have ne: "''15'' \<noteq> []" by simp
  have dg: "list_all decimal_digit ''15''" by (simp add: decimal_digit_def)
  show ?thesis
    using parse_duration_int_unit [OF ne dg] by (simp add: digit_value_def)
qed

text \<open>
  C10. When the last character is not a digit (\<open>isdigit()\<close> is false for it: it is
  neither a decimal digit nor one of the superscript digits) and, lower-cased, is none
  of s, m, h, d, and everything before it is a non-empty string of decimal digits,
  \<open>parse_duration\<close> does not raise: it returns the integer times 1, as if the unit
  were seconds.
\<close>

theorem parse_duration_unknown_unit:
  assumes "ds \<noteq> []" and "list_all decimal_digit ds"
    and "\<not> str_isdigit c"
    and "str_lower c \<notin> {CHR ''s'', CHR ''m'', CHR ''h'', CHR ''d''}"
  shows "parse_duration (ds @ [c]) = Inr (int (decimal ds) * 1)"
proof -
  have "units (str_lower c) = None"
    using assms(4) by (simp add: units_def)
  then have "units_get (str_lower c) 1 = 1"
    by (simp add: units_get_def)
  then show ?thesis
    using parse_duration_unit [OF assms(1-3)] by simp
qed

theorem parse_duration_unknown_unit_witness:
  "parse_duration ''7x'' = Inr 7 \<and> parse_duration ''30 '' = Inr 30
   \<and> parse_duration ''2w'' = Inr 2 \<and> parse_duration (''5'' @ [CHR 0xE9]) = Inr 5"
proof -
  have a: "parse_duration (''7'' @ [CHR ''x'']) = Inr (int (decimal ''7'') * 1)"
    by (rule parse_duration_unknown_unit)
      (simp_all add: decimal_digit_def str_isdigit_def str_lower_def)
  have b: "parse_duration (''30'' @ [CHR '' '']) = Inr (int (decimal ''30'') * 1)"
    by (rule parse_duration_unknown_unit)
      (simp_all add: decimal_digit_def str_isdigit_def str_lower_def)
  have c: "parse_duration (''2'' @ [CHR ''w'']) = Inr (int (decimal ''2'') * 1)"
    by (rule parse_duration_unknown_unit)
      (simp_all add: decimal_digit_def str_isdigit_def str_lower_def)
  have d: "parse_duration (''5'' @ [CHR 0xE9]) = Inr (int (decimal ''5'') * 1)"
    by (rule parse_duration_unknown_unit)
      (simp_all add: decimal_digit_def str_isdigit_def str_lower_def)
  from a b c d show ?thesis
    by (simp add: digit_value_def)
qed

section \<open>Claim about \<open>summarize\<close>\<close>

text \<open>
  C4. For every non-empty latency sequence, \<open>summarize\<close> reports as p50 the median
  of the sequence (the middle element of the sorted sequence, or the mean of the two
  middle elements; at least half of the latencies are at most it and at least half are
  at least it) and as p95 the element of the ascending-sorted sequence at index
  \<open>floor (0.95 * (n - 1))\<close>, which is inside the sequence. For the latencies
  10, 20, 30, 40, 50 it reports p50 = 30 and p95 = 40.
\<close>

theorem summarize_p50_p95:
  assumes "latencies \<noteq> []"
  shows "(\<exists>p50 p95.
            summarize name latencies = Inr (Print_summary name p50 p95)
          \<and> p50 = (if odd (length latencies)
                   then sort latencies ! (length latencies div 2)
                   else (sort latencies ! (length latencies div 2 - 1)
                         + sort latencies ! (length latencies div 2)) / 2)
          \<and> is_median latencies p50
          \<and> nat \<lfloor>0.95 * real (length latencies - 1)\<rfloor> < length latencies
          \<and> p95 = sort latencies ! nat \<lfloor>0.95 * real (length latencies - 1)\<rfloor>)
       \<and> summarize name [10, 20, 30, 40, 50] = Inr (Print_summary name 30 40)"
proof -
  obtain m where med: "median latencies = Inr m" and ism: "is_median latencies m"
    and run: "summarize name latencies
               = Inr (Print_summary name m
                        (sort latencies ! nat \<lfloor>0.95 * real (length latencies - 1)\<rfloor>))"
    using summarize_run [OF assms] by blast
  have sne: "sort latencies \<noteq> []"
    using assms by (metis length_0_conv length_sort)
  have formula: "m = (if odd (length latencies)
                   then sort latencies ! (length latencies div 2)
                   else (sort latencies ! (length latencies div 2 - 1)
                         + sort latencies ! (length latencies div 2)) / 2)"
  proof (cases "length latencies mod 2 = 1")
    case True
    then have "odd (length latencies)"
      by presburger
    with True med sne show ?thesis
      by (simp add: median_def Let_def)
  next
    case False
    then have "\<not> odd (length latencies)"
      by presburger
    with False med sne show ?thesis
      by (simp add: median_def Let_def)
  qed
  have bound: "nat \<lfloor>0.95 * real (length latencies - 1)\<rfloor> < length latencies"
    using idx95_bound [of "length latencies - 1"] assms
    by (metis Suc_pred' le_imp_less_Suc length_greater_0_conv)
  have example: "summarize name [10, 20, 30, 40, 50] = Inr (Print_summary name 30 40)"
    by (simp add: summarize_def median_def list_item_def int_of_float_def Let_def)
  show ?thesis
    using run formula ism bound example by blast
qed

theorem summarize_p50_p95_witness:
  "[3, 1, 2, 4] \<noteq> ([] :: real list)
   \<and> (\<exists>p50 p95. summarize ''Prometheus'' [3, 1, 2, 4] = Inr (Print_summary ''Prometheus'' p50 p95)
        \<and> p50 = 5 / 2 \<and> is_median [3, 1, 2, 4] p50 \<and> p95 = 3)"
proof -
  have ne: "[3, 1, 2, 4] \<noteq> ([] :: real list)"
    by simp
  have idx: "nat \<lfloor>(95 / 100 :: real) * real (length [3, 1, 2, 4 :: real] - 1)\<rfloor> = 2"
    by simp
  show ?thesis
    using summarize_p50_p95 [OF ne, of "''Prometheus''"] unfolding idx by auto
qed

section \<open>Claims about the label space\<close>

text \<open>
  C1, as the code has it. For every configuration, \<open>generate_series\<close> yields
  exactly (number of instances) times (number of status codes) times (number of
  methods) label sets, where the instances are \<open>range(NUM_INSTANCES)\<close> and the status
  codes and methods are the hardcoded lists of five and two elements cut by the slices
  \<open>[:NUM_STATUS_CODES]\<close> and \<open>[:NUM_METHODS]\<close>: at most five and two, whatever is
  configured. The label sets are the full cross product of the three domains, they are
  pairwise distinct as records and as identity tuples, and nothing random or timed enters
  them: after a tick from an empty table, with any noise and any timestamp, the gauge
  holds exactly these label sets.
\<close>

theorem generate_series_cross_product:
  "length (generate_series cfg)
     = nat (NUM_INSTANCES cfg) * length (STATUS_CODES cfg) * length (METHODS cfg)
   \<and> length (STATUS_CODES cfg)
       = (if 0 \<le> NUM_STATUS_CODES cfg then min (nat (NUM_STATUS_CODES cfg)) 5
          else nat (5 + NUM_STATUS_CODES cfg))
   \<and> length (METHODS cfg)
       = (if 0 \<le> NUM_METHODS cfg then min (nat (NUM_METHODS cfg)) 2
          else nat (2 + NUM_METHODS cfg))
   \<and> set (generate_series cfg)
       = mk_labels ` ({..< nat (NUM_INSTANCES cfg)} \<times> set (STATUS_CODES cfg)
                        \<times> set (METHODS cfg))
   \<and> distinct (generate_series cfg)
   \<and> distinct (map (\<lambda>l. (l_job l, l_instance l, l_status_code l, l_method l))
                 (generate_series cfg))
   \<and> dom (snd (build_bulk_payload dumps cfg noise ts Map.empty))
       = set (generate_series cfg)"
proof -
  have tuples: "distinct (map (\<lambda>l. (l_job l, l_instance l, l_status_code l, l_method l))
                  (generate_series cfg))"
    using distinct_generate_series [of cfg]
    by (simp add: distinct_map inj_on_def)
  show ?thesis
    using length_generate_series [of cfg] length_STATUS_CODES [of cfg] length_METHODS [of cfg]
      set_generate_series [of cfg] distinct_generate_series [of cfg] tuples
      dom_gauge_after_tick [of dumps cfg noise ts Map.empty]
    by simp
qed

text \<open>
  C1 as stated fails: with one instance, six status codes and two methods configured,
  \<open>generate_series\<close> yields ten label sets, not twelve.
\<close>

theorem generate_series_six_codes_counterexample:
  "length (generate_series cfg_six_codes) = 10
   \<and> NUM_INSTANCES cfg_six_codes * NUM_STATUS_CODES cfg_six_codes * NUM_METHODS cfg_six_codes = 12
   \<and> int (length (generate_series cfg_six_codes))
       \<noteq> NUM_INSTANCES cfg_six_codes * NUM_STATUS_CODES cfg_six_codes * NUM_METHODS cfg_six_codes"
  by (simp add: length_generate_series length_STATUS_CODES length_METHODS cfg_six_codes_def)

text \<open>
  C9, as the code has it. For counts that are not negative, \<open>generate_series\<close> yields
  \<open>NUM_INSTANCES * min NUM_STATUS_CODES 5 * min NUM_METHODS 2\<close> label sets. When more
  than five status codes or more than two methods are configured and all three counts are
  positive, this is less than the product of the configured counts.
\<close>

theorem generate_series_capped:
  assumes "0 \<le> NUM_INSTANCES cfg" and "0 \<le> NUM_STATUS_CODES cfg" and "0 \<le> NUM_METHODS cfg"
  shows "int (length (generate_series cfg))
           = NUM_INSTANCES cfg * min (NUM_STATUS_CODES cfg) 5 * min (NUM_METHODS cfg) 2
       \<and> ((5 < NUM_STATUS_CODES cfg \<or> 2 < NUM_METHODS cfg)
            \<and> 0 < NUM_INSTANCES cfg \<and> 0 < NUM_STATUS_CODES cfg \<and> 0 < NUM_METHODS cfg
          \<longrightarrow> int (length (generate_series cfg))
                < NUM_INSTANCES cfg * NUM_STATUS_CODES cfg * NUM_METHODS cfg)"
proof -
  define n where "n = NUM_INSTANCES cfg"
  define s where "s = NUM_STATUS_CODES cfg"
  define m where "m = NUM_METHODS cfg"
  have nn: "0 \<le> n" "0 \<le> s" "0 \<le> m"
    using assms by (simp_all add: n_def s_def m_def)
  have ls: "int (length (STATUS_CODES cfg)) = min s 5"
    using nn unfolding length_STATUS_CODES s_def [symmetric] by auto
  have lm: "int (length (METHODS cfg)) = min m 2"
    using nn unfolding length_METHODS m_def [symmetric] by auto
  have count: "int (length (generate_series cfg)) = n * min s 5 * min m 2"
    using nn by (simp add: length_generate_series ls lm n_def [symmetric])
  have less: "n * min s 5 * min m 2 < n * s * m"
    if cap: "5 < s \<or> 2 < m" and pos: "0 < n" "0 < s" "0 < m"
  proof -
    have a: "0 < min s 5" "min s 5 \<le> s" "0 < min m 2" "min m 2 \<le> m"
      using pos by simp_all
    have strict: "min s 5 * min m 2 < s * m"
    proof (cases "5 < s")
      case True
      then have "min s 5 < s" by simp
      then have "min s 5 * min m 2 < s * min m 2"
        using a(3) by simp
      also have "\<dots> \<le> s * m"
        using a(4) pos(2) by simp
      finally show ?thesis .
    next
      case False
      with cap have "2 < m" by simp
      then have "min m 2 < m" by simp
      then have "min s 5 * min m 2 < min s 5 * m"
        using a(1) by simp
      also have "\<dots> \<le> s * m"
        using a(2) pos(3) by simp
      finally show ?thesis .
    qed
    then have "n * (min s 5 * min m 2) < n * (s * m)"
      using pos(1) by simp
    then show ?thesis
      by (simp add: mult.assoc)
  qed
  show ?thesis
    using count less unfolding n_def s_def m_def by simp
qed

theorem generate_series_capped_witness:
  "int (length (generate_series cfg_six_codes)) = 1 * min 6 5 * min 2 2
   \<and> int (length (generate_series cfg_six_codes)) < 1 * 6 * 2"
proof -
  have a: "0 \<le> NUM_INSTANCES cfg_six_codes" "0 \<le> NUM_STATUS_CODES cfg_six_codes"
    "0 \<le> NUM_METHODS cfg_six_codes"
    by (simp_all add: cfg_six_codes_def)
  show ?thesis
    using generate_series_capped [OF a] by (simp add: cfg_six_codes_def)
qed

text \<open>
  C9 as stated fails where a count is negative: with \<open>NUM_INSTANCES = -1\<close>, six status
  codes and two methods, \<open>range(-1)\<close> is empty and \<open>generate_series\<close> yields no label
  set, while the stated product is \<open>-10\<close>.
\<close>

theorem generate_series_negative_counterexample:
  "5 < NUM_STATUS_CODES cfg_negative
   \<and> length (generate_series cfg_negative) = 0
   \<and> NUM_INSTANCES cfg_negative * min (NUM_STATUS_CODES cfg_negative) 5
        * min (NUM_METHODS cfg_negative) 2 = - 10
   \<and> int (length (generate_series cfg_negative))
       \<noteq> NUM_INSTANCES cfg_negative * min (NUM_STATUS_CODES cfg_negative) 5
           * min (NUM_METHODS cfg_negative) 2"
  by (simp add: length_generate_series cfg_negative_def)

section \<open>Claims about one tick\<close>

text \<open>
  C6. For every label set and every noise draw between -10 and 10, the sample value is
  \<open>max 0 (100 * factor + noise)\<close> with factor 1 for the status code "200" and 0.05
  for any other. So it is never negative, it lies within 10 of 100 for "200" and within
  10 of 5 for any other status code. This is the value a tick stores in the gauge for
  the label set, computed from the draw made for it.
\<close>

theorem compute_value_bounds:
  assumes "- 10 \<le> noise" and "noise \<le> 10"
  shows "compute_value sc noise = max 0 (100 * (if sc = ''200'' then 1 else 0.05) + noise)
       \<and> 0 \<le> compute_value sc noise
       \<and> (sc = ''200'' \<longrightarrow> compute_value sc noise = 100 + noise
                              \<and> \<bar>compute_value sc noise - 100\<bar> \<le> 10)
       \<and> (sc \<noteq> ''200'' \<longrightarrow> compute_value sc noise = max 0 (5 + noise)
                              \<and> \<bar>compute_value sc noise - 5\<bar> \<le> 10)
       \<and> (\<forall>j < length (generate_series cfg).
             snd (build_bulk_payload dumps cfg draws ts g) (generate_series cfg ! j)
             = Some (compute_value (l_status_code (generate_series cfg ! j)) (draws j)))"
proof -
  have v: "compute_value sc noise = max 0 (100 * (if sc = ''200'' then 1 else 0.05) + noise)"
    by (simp add: compute_value_def Let_def)
  have ok: "sc = ''200'' \<Longrightarrow> compute_value sc noise = 100 + noise"
    using assms by (simp add: compute_value_def Let_def)
  have err: "sc \<noteq> ''200'' \<Longrightarrow> compute_value sc noise = max 0 (5 + noise)"
    by (simp add: compute_value_def Let_def)
  have gauge: "\<forall>j < length (generate_series cfg).
             snd (build_bulk_payload dumps cfg draws ts g) (generate_series cfg ! j)
             = Some (compute_value (l_status_code (generate_series cfg ! j)) (draws j))"
    using gauge_after_tick [of _ cfg dumps draws ts g] by (simp add: sample_value_def)
  have nonneg: "0 \<le> compute_value sc noise"
    by (simp add: compute_value_def Let_def)
  have near_ok: "sc = ''200'' \<Longrightarrow> \<bar>compute_value sc noise - 100\<bar> \<le> 10"
    using assms ok by simp
  have near_err: "sc \<noteq> ''200'' \<Longrightarrow> \<bar>compute_value sc noise - 5\<bar> \<le> 10"
    using assms err by (auto simp: max_def abs_if)
  show ?thesis
    using v nonneg ok err near_ok near_err gauge by blast
qed

theorem compute_value_bounds_witness:
  "compute_value ''200'' (- 10) = 90 \<and> compute_value ''200'' 10 = 110
   \<and> compute_value ''500'' (- 10) = 0 \<and> compute_value ''404'' 10 = 15
   \<and> \<bar>compute_value ''500'' (- 10) - 5\<bar> \<le> 10"
proof -
  have lo: "- 10 \<le> (- 10 :: real)" "(- 10 :: real) \<le> 10"
    and hi: "- 10 \<le> (10 :: real)" "(10 :: real) \<le> 10"
    by simp_all
  have "compute_value ''200'' (- 10) = 90"
    using compute_value_bounds [OF lo, of "''200''"] by simp
  moreover have "compute_value ''200'' 10 = 110"
    using compute_value_bounds [OF hi, of "''200''"] by simp
  moreover have "compute_value ''500'' (- 10) = 0 \<and> \<bar>compute_value ''500'' (- 10) - 5\<bar> \<le> 10"
    using compute_value_bounds [OF lo, of "''500''"] by simp
  moreover have "compute_value ''404'' 10 = 15"
    using compute_value_bounds [OF hi, of "''404''"] by simp
  ultimately show ?thesis
    by simp
qed

text \<open>
  C2, as the code has it. In every tick, each label set that \<open>generate_series\<close>
  yields contributes exactly one create action, the object with the single key
  \<open>create\<close> and an empty object as its value, followed by one document to the bulk
  body, and sets exactly its own gauge value, to the value written in its document. The
  document has the six fields \<open>@timestamp\<close>, \<open>http_requests_qps\<close>, \<open>job\<close>,
  \<open>instance\<close>, \<open>status_code\<close> and \<open>method\<close>, in this order: the timestamp
  passed in, the value computed from the draw made for the label set, and the four
  labels. The body is the lines of the tick joined by newlines plus a trailing newline,
  and there are exactly twice as many lines as label sets: twice the number of instances
  times the number of status codes times the number of methods of the truncated label
  space, as in C1. Gauge values of other label sets are left as they were. Given that
  \<open>json.dumps\<close> writes no raw newline, splitting a non-empty body at the newlines
  gives these lines back, followed by the empty rest.
\<close>

theorem build_bulk_payload_pairs:
  assumes "\<forall>j. CHR ''\<newline>'' \<notin> set (dumps j)"
  shows "fst (build_bulk_payload dumps cfg noise ts g)
           = str_join ''\<newline>'' (tick_lines dumps cfg noise ts) @ ''\<newline>''
       \<and> length (tick_lines dumps cfg noise ts) = 2 * length (generate_series cfg)
       \<and> length (tick_lines dumps cfg noise ts)
           = 2 * (nat (NUM_INSTANCES cfg) * length (STATUS_CODES cfg) * length (METHODS cfg))
       \<and> (\<forall>j < length (generate_series cfg).
             tick_lines dumps cfg noise ts ! (2 * j) = dumps (JDict [(''create'', JDict [])])
           \<and> tick_lines dumps cfg noise ts ! (2 * j + 1)
               = dumps (JDict
                   [(''@timestamp'', JStr ts),
                    (''http_requests_qps'',
                       JFloat (compute_value (l_status_code (generate_series cfg ! j)) (noise j))),
                    (''job'', JStr (l_job (generate_series cfg ! j))),
                    (''instance'', JStr (l_instance (generate_series cfg ! j))),
                    (''status_code'', JStr (l_status_code (generate_series cfg ! j))),
                    (''method'', JStr (l_method (generate_series cfg ! j)))])
           \<and> tick_lines dumps cfg noise ts ! (2 * j) = dumps bulk_action
           \<and> tick_lines dumps cfg noise ts ! (2 * j + 1)
               = dumps (bulk_doc ts (generate_series cfg ! j)
                          (sample_value noise (generate_series cfg) j))
           \<and> sample_value noise (generate_series cfg) j
               = compute_value (l_status_code (generate_series cfg ! j)) (noise j)
           \<and> json_field (bulk_doc ts (generate_series cfg ! j)
                            (sample_value noise (generate_series cfg) j)) ''@timestamp''
               = Some (JStr ts)
           \<and> json_field (bulk_doc ts (generate_series cfg ! j)
                            (sample_value noise (generate_series cfg) j)) ''http_requests_qps''
               = Some (JFloat (compute_value (l_status_code (generate_series cfg ! j)) (noise j)))
           \<and> json_field (bulk_doc ts (generate_series cfg ! j)
                            (sample_value noise (generate_series cfg) j)) ''job''
               = Some (JStr ''demo'')
           \<and> json_field (bulk_doc ts (generate_series cfg ! j)
                            (sample_value noise (generate_series cfg) j)) ''instance''
               = Some (JStr (l_instance (generate_series cfg ! j)))
           \<and> json_field (bulk_doc ts (generate_series cfg ! j)
                            (sample_value noise (generate_series cfg) j)) ''status_code''
               = Some (JStr (l_status_code (generate_series cfg ! j)))
           \<and> json_field (bulk_doc ts (generate_series cfg ! j)
                            (sample_value noise (generate_series cfg) j)) ''method''
               = Some (JStr (l_method (generate_series cfg ! j)))
           \<and> snd (build_bulk_payload dumps cfg noise ts g) (generate_series cfg ! j)
               = Some (compute_value (l_status_code (generate_series cfg ! j)) (noise j)))
       \<and> json_field bulk_action ''create'' = Some (JDict [])
       \<and> distinct (generate_series cfg)
       \<and> (\<forall>l. l \<notin> set (generate_series cfg)
              \<longrightarrow> snd (build_bulk_payload dumps cfg noise ts g) l = g l)
       \<and> (generate_series cfg \<noteq> []
            \<longrightarrow> str_split (CHR ''\<newline>'') (fst (build_bulk_payload dumps cfg noise ts g))
                = tick_lines dumps cfg noise ts @ [[]])"
proof -
  have body: "fst (build_bulk_payload dumps cfg noise ts g)
           = str_join ''\<newline>'' (tick_lines dumps cfg noise ts) @ ''\<newline>''"
    by (rule build_bulk_payload_body)
  have len: "length (tick_lines dumps cfg noise ts) = 2 * length (generate_series cfg)"
    by (rule length_tick_lines)
  have len': "length (tick_lines dumps cfg noise ts)
           = 2 * (nat (NUM_INSTANCES cfg) * length (STATUS_CODES cfg) * length (METHODS cfg))"
    by (simp add: len length_generate_series)
  have free: "\<forall>w \<in> set (tick_lines dumps cfg noise ts). CHR ''\<newline>'' \<notin> set w"
    using assms by (auto simp: tick_lines_def sample_lines_def)
  have split: "str_split (CHR ''\<newline>'') (fst (build_bulk_payload dumps cfg noise ts g))
                = tick_lines dumps cfg noise ts @ [[]]"
    if "generate_series cfg \<noteq> []"
  proof -
    from that len have "tick_lines dumps cfg noise ts \<noteq> []"
      by auto
    from str_split_join [OF free this] show ?thesis
      by (simp add: body)
  qed
  have job: "l_job (generate_series cfg ! j) = ''demo''" if "j < length (generate_series cfg)" for j
  proof -
    from that have "generate_series cfg ! j \<in> set (generate_series cfg)"
      by simp
    then show ?thesis
      by (auto simp: set_generate_series mk_labels_def)
  qed
  have action: "bulk_action = JDict [(''create'', JDict [])]"
    by (simp add: bulk_action_def)
  have doc: "bulk_doc ts l v
             = JDict [(''@timestamp'', JStr ts), (''http_requests_qps'', JFloat v),
                      (''job'', JStr (l_job l)), (''instance'', JStr (l_instance l)),
                      (''status_code'', JStr (l_status_code l)), (''method'', JStr (l_method l))]"
    for l v
    by (simp add: bulk_doc_def)
  have v: "sample_value noise (generate_series cfg) j
           = compute_value (l_status_code (generate_series cfg ! j)) (noise j)" for j
    by (simp add: sample_value_def)
  have lines: "tick_lines dumps cfg noise ts ! (2 * j) = dumps (JDict [(''create'', JDict [])])
           \<and> tick_lines dumps cfg noise ts ! (2 * j + 1)
               = dumps (JDict
                   [(''@timestamp'', JStr ts),
                    (''http_requests_qps'',
                       JFloat (compute_value (l_status_code (generate_series cfg ! j)) (noise j))),
                    (''job'', JStr (l_job (generate_series cfg ! j))),
                    (''instance'', JStr (l_instance (generate_series cfg ! j))),
                    (''status_code'', JStr (l_status_code (generate_series cfg ! j))),
                    (''method'', JStr (l_method (generate_series cfg ! j)))])"
    if "j < length (generate_series cfg)" for j
    using nth_tick_lines [OF that, of dumps noise ts] by (simp add: action doc v)
  have fields: "json_field bulk_action ''create'' = Some (JDict [])"
    by (simp add: json_field_def bulk_action_def)
  show ?thesis
    using body len len' split lines nth_tick_lines [of _ cfg dumps noise ts]
      gauge_after_tick [of _ cfg dumps noise ts g]
      gauge_after_tick_other [of _ cfg dumps noise ts g]
      distinct_generate_series [of cfg] job fields
    by (simp add: bulk_doc_fields v)
qed

theorem build_bulk_payload_pairs_witness:
  "fst (build_bulk_payload dumps_tag cfg_small noise_zero ''2026-01-01T00:00:00+00:00'' Map.empty)
     = ''{create}\<newline>{doc}\<newline>{create}\<newline>{doc}\<newline>''
   \<and> str_split (CHR ''\<newline>'')
         (fst (build_bulk_payload dumps_tag cfg_small noise_zero ''2026-01-01T00:00:00+00:00'' Map.empty))
       = [''{create}'', ''{doc}'', ''{create}'', ''{doc}'', []]
   \<and> snd (build_bulk_payload dumps_tag cfg_small noise_zero ''2026-01-01T00:00:00+00:00'' Map.empty)
         \<lparr>l_job = ''demo'', l_instance = ''inst-00001'', l_status_code = ''200'', l_method = ''GET''\<rparr>
       = Some 100"
proof -
  have nl: "\<forall>j. CHR ''\<newline>'' \<notin> set (dumps_tag j)"
    by (simp add: dumps_tag_def)
  have gs: "generate_series cfg_small =
     [\<lparr>l_job = ''demo'', l_instance = ''inst-00000'', l_status_code = ''200'', l_method = ''GET''\<rparr>,
      \<lparr>l_job = ''demo'', l_instance = ''inst-00001'', l_status_code = ''200'', l_method = ''GET''\<rparr>]"
    by code_simp
  have len: "length (generate_series cfg_small) = 2"
    by (simp add: gs)
  note t = build_bulk_payload_pairs [OF nl, of cfg_small noise_zero
      "''2026-01-01T00:00:00+00:00''" Map.empty]
  from t have
    a: "fst (build_bulk_payload dumps_tag cfg_small noise_zero ''2026-01-01T00:00:00+00:00'' Map.empty)
           = str_join ''\<newline>'' (tick_lines dumps_tag cfg_small noise_zero ''2026-01-01T00:00:00+00:00'') @ ''\<newline>''"
    and b: "generate_series cfg_small \<noteq> []
            \<longrightarrow> str_split (CHR ''\<newline>'') (fst (build_bulk_payload dumps_tag cfg_small noise_zero ''2026-01-01T00:00:00+00:00'' Map.empty))
                = tick_lines dumps_tag cfg_small noise_zero ''2026-01-01T00:00:00+00:00'' @ [[]]"
    and l: "length (tick_lines dumps_tag cfg_small noise_zero ''2026-01-01T00:00:00+00:00'')
            = 2 * length (generate_series cfg_small)"
    and c: "\<forall>j < length (generate_series cfg_small).
              tick_lines dumps_tag cfg_small noise_zero ''2026-01-01T00:00:00+00:00'' ! (2 * j)
                = dumps_tag (JDict [(''create'', JDict [])])
            \<and> tick_lines dumps_tag cfg_small noise_zero ''2026-01-01T00:00:00+00:00'' ! (2 * j + 1)
                = dumps_tag (bulk_doc ''2026-01-01T00:00:00+00:00'' (generate_series cfg_small ! j)
                     (sample_value noise_zero (generate_series cfg_small) j))
            \<and> snd (build_bulk_payload dumps_tag cfg_small noise_zero ''2026-01-01T00:00:00+00:00'' Map.empty)
                (generate_series cfg_small ! j)
              = Some (compute_value (l_status_code (generate_series cfg_small ! j)) (noise_zero j))"
    by blast+
  have doc: "dumps_tag (bulk_doc x y z) = ''{doc}''" for x y z
    by (simp add: dumps_tag_def bulk_doc_def)
  have act: "dumps_tag (JDict [(''create'', JDict [])]) = ''{create}''"
    by (simp add: dumps_tag_def)
  have c0: "tick_lines dumps_tag cfg_small noise_zero ''2026-01-01T00:00:00+00:00'' ! 0 = ''{create}''"
    and c1: "tick_lines dumps_tag cfg_small noise_zero ''2026-01-01T00:00:00+00:00'' ! 1 = ''{doc}''"
    using c [rule_format, of 0] by (simp_all add: len doc act)
  have c2: "tick_lines dumps_tag cfg_small noise_zero ''2026-01-01T00:00:00+00:00'' ! 2 = ''{create}''"
    and c3: "tick_lines dumps_tag cfg_small noise_zero ''2026-01-01T00:00:00+00:00'' ! 3 = ''{doc}''"
    and v: "snd (build_bulk_payload dumps_tag cfg_small noise_zero ''2026-01-01T00:00:00+00:00'' Map.empty)
                (generate_series cfg_small ! 1)
              = Some (compute_value (l_status_code (generate_series cfg_small ! 1)) (noise_zero 1))"
    using c [rule_format, of 1] by (simp_all add: len doc act)
  have tl: "tick_lines dumps_tag cfg_small noise_zero ''2026-01-01T00:00:00+00:00''
            = [''{create}'', ''{doc}'', ''{create}'', ''{doc}'']"
  proof (rule nth_equalityI)
    show "length (tick_lines dumps_tag cfg_small noise_zero ''2026-01-01T00:00:00+00:00'')
          = length [''{create}'', ''{doc}'', ''{create}'', ''{doc}'']"
      using l by (simp add: len)
  next
    fix i assume "i < length (tick_lines dumps_tag cfg_small noise_zero ''2026-01-01T00:00:00+00:00'')"
    then have "i < 4"
      using l by (simp add: len)
    then have "i = 0 \<or> i = 1 \<or> i = 2 \<or> i = 3"
      by arith
    then show "tick_lines dumps_tag cfg_small noise_zero ''2026-01-01T00:00:00+00:00'' ! i
               = [''{create}'', ''{doc}'', ''{create}'', ''{doc}''] ! i"
      using c0 c1 c2 c3 by (auto simp: numeral_2_eq_2 numeral_3_eq_3)
  qed
  show ?thesis
    using a b v by (simp add: tl gs compute_value_def noise_zero_def)
qed

text \<open>
  C2 as stated fails where C1 does: with one instance, six status codes and two methods
  configured, the body of a tick has twenty lines, not twice the product of the
  configured counts, which is twenty-four.
\<close>

theorem build_bulk_payload_six_codes_counterexample:
  "length (tick_lines dumps_blank cfg_six_codes noise_zero ''2026-01-01T00:00:00+00:00'') = 20
   \<and> str_split (CHR ''\<newline>'')
         (fst (build_bulk_payload dumps_blank cfg_six_codes noise_zero
                 ''2026-01-01T00:00:00+00:00'' Map.empty))
       = replicate 20 ''{}'' @ [[]]
   \<and> 2 * (NUM_INSTANCES cfg_six_codes * NUM_STATUS_CODES cfg_six_codes
            * NUM_METHODS cfg_six_codes) = 24
   \<and> int (length (tick_lines dumps_blank cfg_six_codes noise_zero ''2026-01-01T00:00:00+00:00''))
       \<noteq> 2 * (NUM_INSTANCES cfg_six_codes * NUM_STATUS_CODES cfg_six_codes
                * NUM_METHODS cfg_six_codes)"
proof -
  define ls where "ls = tick_lines dumps_blank cfg_six_codes noise_zero ''2026-01-01T00:00:00+00:00''"
  have len: "length ls = 20"
    by (simp add: ls_def length_tick_lines length_generate_series length_STATUS_CODES
        length_METHODS cfg_six_codes_def)
  have all: "\<forall>w \<in> set ls. w = ''{}''"
    by (auto simp: ls_def tick_lines_def sample_lines_def dumps_blank_def)
  have rep: "ls = replicate 20 ''{}''"
    using len all by (intro replicate_eqI) auto
  have free: "\<forall>w \<in> set ls. CHR ''\<newline>'' \<notin> set w"
    using all by auto
  have ne: "ls \<noteq> []"
    using len by auto
  have prod: "NUM_INSTANCES cfg_six_codes * NUM_STATUS_CODES cfg_six_codes
              * NUM_METHODS cfg_six_codes = 12"
    by (simp add: cfg_six_codes_def)
  have "str_split (CHR ''\<newline>'')
         (fst (build_bulk_payload dumps_blank cfg_six_codes noise_zero
                 ''2026-01-01T00:00:00+00:00'' Map.empty)) = ls @ [[]]"
    using str_split_join [OF free ne] by (simp add: build_bulk_payload_body ls_def)
  then show ?thesis
    unfolding ls_def [symmetric] using len rep
    by (simp add: prod)
qed

section \<open>Claim about schema setup\<close>

text \<open>
  C8. Once Elasticsearch is ready, \<open>ingest_loop\<close> calls \<open>ensure_index\<close> at most
  three times, whatever the calls answer. It stops at the first success; between two
  attempts it logs the retry and sleeps two seconds. When all three attempts fail it
  logs the error after the third, without a further sleep, and goes on: it announces the
  ingest loop and runs it, posting one bulk body in every tick (in the first tick only
  when the configured tick interval is negative, since the sleep then raises).
\<close>

theorem ingest_loop_setup_retries:
  assumes "es_ready env"
  shows "fst (ingest_loop dumps cfg env fuel g)
           = (if ensure_index (setup_calls env 0) then [Call_ensure_index 0]
              else if ensure_index (setup_calls env 1)
                then [Call_ensure_index 0, Log_retry 1 3, Sleep 2, Call_ensure_index 1]
              else if ensure_index (setup_calls env 2)
                then [Call_ensure_index 0, Log_retry 1 3, Sleep 2, Call_ensure_index 1,
                      Log_retry 2 3, Sleep 2, Call_ensure_index 2]
              else [Call_ensure_index 0, Log_retry 1 3, Sleep 2, Call_ensure_index 1,
                    Log_retry 2 3, Sleep 2, Call_ensure_index 2, Log_setup_failed])
             @ Log_loop_starting # fst (tick_loop dumps cfg env fuel 0 True g)
       \<and> (\<not> ensure_index (setup_calls env 0) \<and> \<not> ensure_index (setup_calls env 1)
            \<and> \<not> ensure_index (setup_calls env 2)
          \<longrightarrow> fst (ingest_loop dumps cfg env fuel g)
                = [Call_ensure_index 0, Log_retry 1 3, Sleep 2, Call_ensure_index 1,
                   Log_retry 2 3, Sleep 2, Call_ensure_index 2, Log_setup_failed,
                   Log_loop_starting]
                  @ fst (tick_loop dumps cfg env fuel 0 True g))
       \<and> length (filter is_Call_ensure_index (fst (ingest_loop dumps cfg env fuel g))) \<le> 3
       \<and> length (filter is_Post_bulk (fst (tick_loop dumps cfg env fuel 0 True g)))
           = (if TICK_SECONDS cfg < 0 then min fuel 1 else fuel)
       \<and> length (filter is_Post_bulk (fst (ingest_loop dumps cfg env fuel g)))
           = (if TICK_SECONDS cfg < 0 then min fuel 1 else fuel)"
proof -
  have posts: "length (filter is_Post_bulk (fst (tick_loop dumps cfg env fuel 0 True g)))
           = (if TICK_SECONDS cfg < 0 then min fuel 1 else fuel)"
    by (rule tick_loop_posts)
  have trace: "fst (ingest_loop dumps cfg env fuel g)
     = setup_loop (setup_calls env) 3 (py_range 3)
       @ Log_loop_starting # fst (tick_loop dumps cfg env fuel 0 True g)"
    by (rule ingest_loop_ready [OF assms])
  have no_posts: "filter is_Post_bulk (setup_loop (setup_calls env) 3 (py_range 3)) = []"
    by (simp add: setup_loop_three is_Post_bulk_def)
  have all_posts: "length (filter is_Post_bulk (fst (ingest_loop dumps cfg env fuel g)))
           = (if TICK_SECONDS cfg < 0 then min fuel 1 else fuel)"
    using posts by (simp add: trace no_posts is_Post_bulk_simps is_Post_bulk_def)
  show ?thesis
    using posts all_posts ingest_loop_calls [of dumps cfg env fuel g]
    unfolding trace setup_loop_three by simp
qed

theorem ingest_loop_setup_retries_witness:
  "es_ready env_setup_down
   \<and> \<not> ensure_index (setup_calls env_setup_down 0)
   \<and> \<not> ensure_index (setup_calls env_setup_down 1)
   \<and> \<not> ensure_index (setup_calls env_setup_down 2)
   \<and> fst (ingest_loop dumps_blank cfg_small env_setup_down 2 Map.empty)
       = [Call_ensure_index 0, Log_retry 1 3, Sleep 2, Call_ensure_index 1,
          Log_retry 2 3, Sleep 2, Call_ensure_index 2, Log_setup_failed,
          Log_loop_starting,
          Post_bulk ''{}\<newline>{}\<newline>{}\<newline>{}\<newline>'', Verify_first_batch, Sleep 1,
          Post_bulk ''{}\<newline>{}\<newline>{}\<newline>{}\<newline>'', Sleep 1]"
proof -
  have ready: "es_ready env_setup_down"
    by (simp add: env_setup_down_def)
  have fails: "\<not> ensure_index (setup_calls env_setup_down k)" for k
    by (simp add: env_setup_down_def setup_down_def ensure_index_def)
  have gs: "generate_series cfg_small =
     [\<lparr>l_job = ''demo'', l_instance = ''inst-00000'', l_status_code = ''200'', l_method = ''GET''\<rparr>,
      \<lparr>l_job = ''demo'', l_instance = ''inst-00001'', l_status_code = ''200'', l_method = ''GET''\<rparr>]"
    by code_simp
  have body: "fst (build_bulk_payload dumps_blank cfg_small nz ts h)
              = ''{}\<newline>{}\<newline>{}\<newline>{}\<newline>''" for nz ts h
    by (simp add: build_bulk_payload_body tick_lines_def gs sample_lines_def dumps_blank_def
        upt_rec)
  have two: "(2 :: nat) = Suc (Suc 0)"
    by simp
  have pace: "TICK_SECONDS cfg_small = 1"
    by (simp add: cfg_small_def)
  have ticks: "fst (tick_loop dumps_blank cfg_small env_setup_down 2 0 True Map.empty)
               = [Post_bulk ''{}\<newline>{}\<newline>{}\<newline>{}\<newline>'', Verify_first_batch, Sleep 1,
                  Post_bulk ''{}\<newline>{}\<newline>{}\<newline>{}\<newline>'', Sleep 1]"
    unfolding two
    by (simp add: case_prod_beta body Let_def env_setup_down_def pace)
  show ?thesis
    using ingest_loop_setup_retries [OF ready, of dumps_blank cfg_small 2 Map.empty]
      ready fails [of 0] fails [of 1] fails [of 2]
    by (simp add: ticks)
qed

section \<open>Claim about skipped queries\<close>

text \<open>
  C7, as the code has it. A query definition whose skip flag is set is announced and
  nothing else: its turn of the main loop prints the header and the skip notice, sends
  no request to either backend and reads no clock, so it records no latency, and it
  leaves no summary. A query that is not skipped leaves five requests with its PromQL
  text, then five with its ES|QL text, and its header followed by the two summaries.
  In a run that comes to its end the requests and the milestones are those of all the
  query definitions in catalogue order. In every run, also one that an exception ends,
  the requests sent and the milestones printed are a prefix of these: the definitions
  are processed in catalogue order up to the point where the run ends, and nothing is
  sent or printed out of order. Both hold for any list of definitions and for the
  catalogue of the source, in which the fourth query is the skipped one.
\<close>

theorem skipped_query_is_not_run:
  "(skipped q \<longrightarrow>
      run_query env q st
        = (None, st\<lparr>events := events st @ [Printed (Print_header (q_name q)),
                                            Printed Print_skipping]\<rparr>)
      \<and> n_sent (snd (run_query env q st)) = n_sent st
      \<and> n_clock (snd (run_query env q st)) = n_clock st
      \<and> expected_texts q = [] \<and> expected_marks q = [Header (q_name q), Skipping])
   \<and> (\<not> skipped q \<longrightarrow>
        expected_texts q = replicate 5 (q_promql q) @ replicate 5 (q_esql q)
      \<and> expected_marks q
          = [Header (q_name q), Summary ''Prometheus'', Summary ''Elasticsearch ES|QL''])
   \<and> (fst (run_queries env qs st) = None \<longrightarrow>
        texts_of (events (snd (run_queries env qs st)))
          = texts_of (events st) @ concat (map expected_texts qs)
      \<and> marks_of (events (snd (run_queries env qs st)))
          = marks_of (events st) @ concat (map expected_marks qs)
      \<and> n_sent (snd (run_queries env qs st))
          = n_sent st + 10 * length (filter (\<lambda>q. \<not> skipped q) qs))
   \<and> (fst (main env) = None \<longrightarrow>
        texts_of (events (snd (main env))) = concat (map expected_texts QUERIES)
      \<and> marks_of (events (snd (main env))) = concat (map expected_marks QUERIES))
   \<and> prefix (texts_of (events (snd (run_queries env qs st))))
        (texts_of (events st) @ concat (map expected_texts qs))
   \<and> prefix (marks_of (events (snd (run_queries env qs st))))
        (marks_of (events st) @ concat (map expected_marks qs))
   \<and> prefix (texts_of (events (snd (main env)))) (concat (map expected_texts QUERIES))
   \<and> prefix (marks_of (events (snd (main env)))) (concat (map expected_marks QUERIES))
   \<and> skipped Q4 \<and> \<not> skipped Q1 \<and> \<not> skipped Q2 \<and> \<not> skipped Q3"
proof -
  have skip: "run_query env q st
        = (None, st\<lparr>events := events st @ [Printed (Print_header (q_name q)),
                                            Printed Print_skipping]\<rparr>)
      \<and> n_sent (snd (run_query env q st)) = n_sent st
      \<and> n_clock (snd (run_query env q st)) = n_clock st
      \<and> expected_texts q = [] \<and> expected_marks q = [Header (q_name q), Skipping]"
    if "skipped q"
    using that by (simp add: run_query_skipped expected_texts_def expected_marks_def)
  have run: "\<not> skipped q \<Longrightarrow>
        expected_texts q = replicate 5 (q_promql q) @ replicate 5 (q_esql q)
      \<and> expected_marks q
          = [Header (q_name q), Summary ''Prometheus'', Summary ''Elasticsearch ES|QL'']"
    by (simp add: expected_texts_def expected_marks_def NUM_RUNS_def)
  have shape: "texts_of (events (snd (run_queries env qs s)))
          = texts_of (events s) @ concat (map expected_texts qs)
      \<and> marks_of (events (snd (run_queries env qs s)))
          = marks_of (events s) @ concat (map expected_marks qs)
      \<and> n_sent (snd (run_queries env qs s))
          = n_sent s + 10 * length (filter (\<lambda>q. \<not> skipped q) qs)"
    if "fst (run_queries env qs s) = None" for qs s
  proof -
    from that have "run_queries env qs s = (None, snd (run_queries env qs s))"
      by (metis prod.collapse)
    from run_queries_shape [OF this] show ?thesis
      by (simp add: length_expected_texts NUM_RUNS_def)
  qed
  have whole: "texts_of (events (snd (main env))) = concat (map expected_texts QUERIES)
      \<and> marks_of (events (snd (main env))) = concat (map expected_marks QUERIES)"
    if "fst (main env) = None"
    using shape [of QUERIES initial_state] that by (simp add: main_def initial_state_def)
  have always: "prefix (texts_of (events (snd (run_queries env qs st))))
        (texts_of (events st) @ concat (map expected_texts qs))"
    "prefix (marks_of (events (snd (run_queries env qs st))))
        (marks_of (events st) @ concat (map expected_marks qs))"
    using run_queries_prefix [of env qs st] by simp_all
  have always_main:
    "prefix (texts_of (events (snd (main env)))) (concat (map expected_texts QUERIES))"
    "prefix (marks_of (events (snd (main env)))) (concat (map expected_marks QUERIES))"
    using run_queries_prefix [of env QUERIES initial_state]
    by (simp_all add: main_def initial_state_def)
  show ?thesis
    using skip run shape [of qs st] whole always always_main catalogue_skipped by blast
qed

theorem skipped_query_is_not_run_witness:
  "skipped Q4 \<and> fst (main env_all_500) = None
   \<and> run_query env_all_500 Q4 initial_state
       = (None, initial_state\<lparr>events := [Printed (Print_header (q_name Q4)),
                                            Printed Print_skipping]\<rparr>)
   \<and> marks_of (events (snd (main env_all_500)))
       = [Header (q_name Q1), Summary ''Prometheus'', Summary ''Elasticsearch ES|QL'',
          Header (q_name Q2), Summary ''Prometheus'', Summary ''Elasticsearch ES|QL'',
          Header (q_name Q3), Summary ''Prometheus'', Summary ''Elasticsearch ES|QL'',
          Header (q_name Q4), Skipping]
   \<and> texts_of (events (snd (main env_all_500)))
       = replicate 5 (q_promql Q1) @ replicate 5 (q_esql Q1)
         @ replicate 5 (q_promql Q2) @ replicate 5 (q_esql Q2)
         @ replicate 5 (q_promql Q3) @ replicate 5 (q_esql Q3)"
proof -
  note t = skipped_query_is_not_run [of Q4 env_all_500 initial_state QUERIES]
  have ex: "concat (map expected_marks QUERIES)
       = [Header (q_name Q1), Summary ''Prometheus'', Summary ''Elasticsearch ES|QL'',
          Header (q_name Q2), Summary ''Prometheus'', Summary ''Elasticsearch ES|QL'',
          Header (q_name Q3), Summary ''Prometheus'', Summary ''Elasticsearch ES|QL'',
          Header (q_name Q4), Skipping]"
    by (simp add: QUERIES_def expected_marks_def catalogue_skipped)
  have et: "concat (map expected_texts QUERIES)
       = replicate 5 (q_promql Q1) @ replicate 5 (q_esql Q1)
         @ replicate 5 (q_promql Q2) @ replicate 5 (q_esql Q2)
         @ replicate 5 (q_promql Q3) @ replicate 5 (q_esql Q3)"
    by (simp add: QUERIES_def expected_texts_def catalogue_skipped NUM_RUNS_def)
  show ?thesis
    using t all_500_completes catalogue_skipped(4)
    by (simp add: ex et initial_state_def)
qed

text \<open>
  C7 as stated fails in its last part when an exception ends the run: the definitions
  after that point are not processed. Here Prometheus answers the five executions of
  the first query and Elasticsearch cannot be reached: the run ends at the first
  ES|QL request of the first query, and the second and the third query, which are not
  skipped, are never announced and never sent to either backend.
\<close>

theorem aborted_run_counterexample:
  "fst (main env_es_down) = Some RequestException
   \<and> \<not> skipped Q2 \<and> \<not> skipped Q3
   \<and> texts_of (events (snd (main env_es_down))) = replicate 5 (q_promql Q1) @ [q_esql Q1]
   \<and> marks_of (events (snd (main env_es_down))) = [Header (q_name Q1)]
   \<and> q_promql Q2 \<notin> set (texts_of (events (snd (main env_es_down))))
   \<and> q_esql Q2 \<notin> set (texts_of (events (snd (main env_es_down))))
   \<and> q_promql Q3 \<notin> set (texts_of (events (snd (main env_es_down))))
   \<and> q_esql Q3 \<notin> set (texts_of (events (snd (main env_es_down))))
   \<and> Header (q_name Q2) \<notin> set (marks_of (events (snd (main env_es_down))))
   \<and> Header (q_name Q3) \<notin> set (marks_of (events (snd (main env_es_down))))
   \<and> texts_of (events (snd (main env_es_down))) \<noteq> concat (map expected_texts QUERIES)
   \<and> marks_of (events (snd (main env_es_down))) \<noteq> concat (map expected_marks QUERIES)"
proof -
  define st0 where "st0 = print (Print_header (q_name Q1)) initial_state"
  have s0: "n_sent st0 = 0" "texts_of (events st0) = []"
    "marks_of (events st0) = [Header (q_name Q1)]"
    by (simp_all add: st0_def initial_state_def)
  have ans: "\<forall>k < 5. answered env_es_down (n_sent st0 + k) k"
    by (simp add: answered_def env_es_down_def s0)
  have dur: "durations_ok Q1"
    by (simp add: durations_ok_def catalogue_fields)
  obtain r st1 where "bench_prom env_es_down Q1 st0 = (Inr r, st1)"
    using bench_prom_progress [OF dur ans] by blast
  then obtain ls first_result where
    prom: "bench_prom env_es_down Q1 st0 = (Inr (ls, first_result), st1)"
    by (cases r) simp
  note p = bench_prom_shape [OF prom]
  have down: "reply env_es_down (n_sent st1) = Request_failed"
    using p by (simp add: env_es_down_def s0)
  define st2 where "st2 = snd (bench_esql env_es_down Q1 st1)"
  note f = bench_esql_failed [OF down, of Q1]
  have es: "bench_esql env_es_down Q1 st1 = (Inl RequestException, st2)"
    using f by (simp add: st2_def prod_eq_iff)
  have m: "main env_es_down = (Some RequestException, st2)"
    by (simp add: main_def QUERIES_def run_query_def catalogue_skipped st0_def [symmetric]
        prom es)
  have t: "texts_of (events st2) = replicate 5 (q_promql Q1) @ [q_esql Q1]"
    and k: "marks_of (events st2) = [Header (q_name Q1)]"
    using f p s0 by (simp_all add: st2_def)
  have ne: "q_promql Q2 \<noteq> q_promql Q1" "q_promql Q2 \<noteq> q_esql Q1"
    "q_esql Q2 \<noteq> q_promql Q1" "q_esql Q2 \<noteq> q_esql Q1"
    "q_promql Q3 \<noteq> q_promql Q1" "q_promql Q3 \<noteq> q_esql Q1"
    "q_esql Q3 \<noteq> q_promql Q1" "q_esql Q3 \<noteq> q_esql Q1"
    "q_name Q2 \<noteq> q_name Q1" "q_name Q3 \<noteq> q_name Q1"
    by (simp_all add: Q1_def Q2_def Q3_def)
  have len: "length (concat (map expected_texts QUERIES)) = 30"
    unfolding length_expected_texts
    by (simp add: QUERIES_def catalogue_skipped NUM_RUNS_def)
  have lm: "length (concat (map expected_marks QUERIES)) = 11"
    by (simp add: QUERIES_def expected_marks_def catalogue_skipped)
  have d1: "texts_of (events st2) \<noteq> concat (map expected_texts QUERIES)"
  proof
    assume "texts_of (events st2) = concat (map expected_texts QUERIES)"
    then have "length (texts_of (events st2)) = 30"
      using len by simp
    then show False
      by (simp add: t)
  qed
  have d2: "marks_of (events st2) \<noteq> concat (map expected_marks QUERIES)"
  proof
    assume "marks_of (events st2) = concat (map expected_marks QUERIES)"
    then have "length (marks_of (events st2)) = 11"
      using lm by simp
    then show False
      by (simp add: k)
  qed
  show ?thesis
    using ne d1 d2 by (simp add: m t k catalogue_skipped)
qed

section \<open>Claim about failed calls\<close>




end
